theory Spec2Isabelle
  imports Complex_Main
begin

section \<open>The worker of package-analysis (cmd/worker/main.go)\<close>

text \<open>
  The worker receives messages from a subscription, analyses the package each message
  names in a sandbox, phase by phase, stores the results and acknowledges the message.
  Everything the worker does through another package (the queue, the blob stores, the
  sandbox, the ecosystem's package manager) is an external call: its outcome is a
  parameter of the model, and the call itself is recorded as an event, so that a
  handler run yields the list of events it caused together with its return value.
\<close>

subsection \<open>Constants\<close>

definition maxRetries :: int where
  "maxRetries = 10"

definition retryInterval :: int where
  "retryInterval = 1"

text \<open>The untyped constant 1.5, which is the fraction 3/2.\<close>

definition retryExpRate :: rat where
  "retryExpRate = 3 / 2"

text \<open>\<^verbatim>\<open>fmt.Sprintf(localPkgPathFmt, s)\<close> with the format \<^verbatim>\<open>"/local/%s"\<close>.\<close>

definition localPkgPathFmt :: "string \<Rightarrow> string" where
  "localPkgPathFmt s = ''/local/'' @ s"

subsection \<open>Data\<close>

text \<open>A Go \<^verbatim>\<open>error\<close> value that is not nil, by its message; \<open>None\<close> of
  \<open>error option\<close> is nil.\<close>

type_synonym error = string

text \<open>Modelled from the spec: \<^verbatim>\<open>analysis.Status\<close> and \<^verbatim>\<open>analysis.Result\<close> are
  declared in internal/analysis, which is not among the sources. The spec gives a Result
  a status, one of Completed, ErrorAnalysis, ErrorTimeout and ErrorOther, and the output
  of the phase.\<close>

datatype analysis_Status =
  StatusCompleted | StatusErrorAnalysis | StatusErrorTimeout | StatusErrorOther

record analysis_Result =
  Status :: analysis_Status
  phaseOutput :: string

text \<open>A \<^verbatim>\<open>map[string]*analysis.Result\<close>: a Go map is a finite map that keeps no order
  of insertion.\<close>

type_synonym results = "string \<rightharpoonup> analysis_Result"

text \<open>A \<^verbatim>\<open>pubsub.Message\<close>. Reading a key that the Go map \<^verbatim>\<open>Metadata\<close> lacks gives
  the empty string.\<close>

record pubsub_Message =
  Metadata :: "string \<rightharpoonup> string"

definition metadata :: "pubsub_Message \<Rightarrow> string \<Rightarrow> string" where
  "metadata msg key = (case Metadata msg key of None \<Rightarrow> [] | Some v \<Rightarrow> v)"

datatype sandbox_Option = Tag string | Volume string string

record Sandbox =
  sandboxImage :: string
  sandboxOptions :: "sandbox_Option list"

definition sandbox_New :: "string \<Rightarrow> sandbox_Option list \<Rightarrow> Sandbox" where
  "sandbox_New img opts = \<lparr>sandboxImage = img, sandboxOptions = opts\<rparr>"

text \<open>The package manager of an ecosystem (\<^verbatim>\<open>pkgecosystem.PkgManager\<close>, not among the
  sources), by the methods the worker calls. The type \<open>'pkg\<close> of packages is a
  parameter; \<open>Command\<close> is the method \<^verbatim>\<open>pkg.Command(phase)\<close> of a package.\<close>

record 'pkg PkgManager =
  Image :: string
  Local :: "string \<Rightarrow> string \<Rightarrow> string \<Rightarrow> 'pkg"
  Package :: "string \<Rightarrow> string \<Rightarrow> 'pkg"
  Latest :: "string \<Rightarrow> error + 'pkg"
  DynamicPhases :: "string list"
  Command :: "'pkg \<Rightarrow> string \<Rightarrow> string list"

datatype log_level = LogInfo | LogWarn | LogError

datatype log_value = Str string | Num int

text \<open>The effects of one run of \<^verbatim>\<open>handleMessage\<close>, in the order they happen.\<close>

datatype 'pkg event =
    Log log_level string "(string \<times> log_value) list"
  | Ack
  | NewReader string
  | ReaderClose
  | TempFile
  | Copy
  | FileClose
  | Remove string
  | CallLatest string
  | SandboxNew Sandbox
  | SandboxClean Sandbox
  | Run Sandbox "string list"
  | Save string 'pkg results

text \<open>The outcomes of the external calls during one run of \<^verbatim>\<open>handleMessage\<close>.
  \<open>analysis_Run\<close> takes the number of earlier calls of \<^verbatim>\<open>analysis.Run\<close> in this run
  first: the sandbox has state, so the same command may end differently the second time.\<close>

record 'pkg env =
  Manager :: "string \<Rightarrow> 'pkg PkgManager option"
  bucket_NewReader :: "string \<Rightarrow> error option"
  ioutil_TempFile :: "error + string"
  io_Copy :: "error option"
  file_Close :: "error option"
  analysis_Run :: "nat \<Rightarrow> Sandbox \<Rightarrow> string list \<Rightarrow> error + analysis_Result"
  resultstore_Save :: "string \<Rightarrow> 'pkg \<Rightarrow> results \<Rightarrow> error option"

subsection \<open>handleMessage\<close>

text \<open>\<^verbatim>\<open>path.Base\<close> of the Go library: the last element of a path, after its trailing
  slashes are dropped.\<close>

definition path_Base :: "string \<Rightarrow> string" where
  "path_Base p =
     (if p = [] then ''.''
      else let stripped = rev (dropWhile (\<lambda>c. c = CHR ''/'') (rev p));
               element = rev (takeWhile (\<lambda>c. c \<noteq> CHR ''/'') (rev stripped))
           in if element = [] then ''/'' else element)"

text \<open>Lines 83 to 111: the package of \<^verbatim>\<open>package_path\<close> is copied from the packages
  bucket into a temporary file. The result is the events, the deferred calls (run when
  \<^verbatim>\<open>handleMessage\<close> returns, the last deferred first) and either the error returned
  or \<^verbatim>\<open>localPkgPath\<close> with the sandbox options.\<close>

definition stagePackage ::
  "'pkg env \<Rightarrow> string option \<Rightarrow> string \<Rightarrow> sandbox_Option list \<Rightarrow>
   'pkg event list \<times> 'pkg event list \<times> (error + string \<times> sandbox_Option list)" where
  "stagePackage e packagesBucket pkgPath sbOpts =
     (if pkgPath \<noteq> [] then
        (if packagesBucket = None then ([], [], Inl ''packages bucket not set'')
         else case bucket_NewReader e pkgPath of
             Some err \<Rightarrow> ([NewReader pkgPath], [], Inl err)
           | None \<Rightarrow>
              (case ioutil_TempFile e of
                 Inl err \<Rightarrow> ([NewReader pkgPath, TempFile], [ReaderClose], Inl err)
               | Inr f \<Rightarrow>
                  (case io_Copy e of
                     Some err \<Rightarrow>
                       ([NewReader pkgPath, TempFile, Copy], [Remove f, ReaderClose], Inl err)
                   | None \<Rightarrow>
                      (case file_Close e of
                         Some err \<Rightarrow>
                           ([NewReader pkgPath, TempFile, Copy, FileClose],
                            [Remove f, ReaderClose], Inl err)
                       | None \<Rightarrow>
                           (let localPkgPath = localPkgPathFmt (path_Base pkgPath)
                            in ([NewReader pkgPath, TempFile, Copy, FileClose],
                                [Remove f, ReaderClose],
                                Inr (localPkgPath, sbOpts @ [Volume f localPkgPath])))))))
      else ([], [], Inr ([], sbOpts)))"

text \<open>Lines 113 to 128: the package is the staged local one, else the one of the version
  given, else the latest.\<close>

definition resolvePkg ::
  "'pkg PkgManager \<Rightarrow> string \<Rightarrow> string \<Rightarrow> string \<Rightarrow> string \<Rightarrow>
   'pkg event list \<times> (error + 'pkg)" where
  "resolvePkg manager ecosystem name version localPkgPath =
     (if localPkgPath \<noteq> [] then ([], Inr (Local manager name version localPkgPath))
      else if version \<noteq> [] then ([], Inr (Package manager name version))
      else case Latest manager name of
          Inl err \<Rightarrow>
            ([CallLatest name,
              Log LogError ''Failed to get latest version''
                [(''ecosystem'', Str ecosystem), (''name'', Str name), (''error'', Str err)]],
             Inl err)
        | Inr pkg \<Rightarrow> ([CallLatest name], Inr pkg))"

text \<open>Lines 135 to 153: the loop over the phases. \<open>labels\<close> are the ecosystem, the
  name and the version, which the error log prints; \<open>i\<close> counts the calls of
  \<^verbatim>\<open>analysis.Run\<close> made so far; the last triple is \<^verbatim>\<open>results\<close>, \<^verbatim>\<open>finalStatus\<close>
  and \<^verbatim>\<open>lastPhase\<close>.\<close>

fun runPhases ::
  "'pkg env \<Rightarrow> Sandbox \<Rightarrow> 'pkg PkgManager \<Rightarrow> 'pkg \<Rightarrow> string \<times> string \<times> string \<Rightarrow>
   nat \<Rightarrow> string list \<Rightarrow> results \<times> analysis_Status \<times> string \<Rightarrow>
   'pkg event list \<times> (error + results \<times> analysis_Status \<times> string)" where
  "runPhases e sb manager pkg labels i [] acc = ([], Inr acc)"
| "runPhases e sb manager pkg labels i (phase # rest) (results, finalStatus, lastPhase) =
     (case analysis_Run e i sb (Command manager pkg phase) of
        Inl err \<Rightarrow>
          ([Run sb (Command manager pkg phase),
            (case labels of
               (ecosystem, name, version) \<Rightarrow>
                 Log LogError ''Analysis run failed''
                   [(''ecosystem'', Str ecosystem), (''name'', Str name), (''phase'', Str phase),
                    (''version'', Str version), (''error'', Str err)])],
           Inl err)
      | Inr result \<Rightarrow>
          (if Status result \<noteq> StatusCompleted
           then ([Run sb (Command manager pkg phase)],
                 Inr (results(phase \<mapsto> result), Status result, phase))
           else (case runPhases e sb manager pkg labels (Suc i) rest
                        (results(phase \<mapsto> result), Status result, phase) of
                   (evs, r) \<Rightarrow> (Run sb (Command manager pkg phase) # evs, r))))"

text \<open>Lines 132 to 153: the loop, from the empty map, \<^verbatim>\<open>StatusCompleted\<close> and the empty
  \<^verbatim>\<open>lastPhase\<close>.\<close>

definition phaseExecutor ::
  "'pkg env \<Rightarrow> Sandbox \<Rightarrow> 'pkg PkgManager \<Rightarrow> 'pkg \<Rightarrow> string \<times> string \<times> string \<Rightarrow>
   'pkg event list \<times> (error + results \<times> analysis_Status \<times> string)" where
  "phaseExecutor e sb manager pkg labels =
     runPhases e sb manager pkg labels 0 (DynamicPhases manager) (Map.empty, StatusCompleted, [])"

text \<open>Lines 155 to 180: one log message for the final status.\<close>

definition logFinalStatus ::
  "analysis_Status \<Rightarrow> string \<Rightarrow> string \<Rightarrow> string \<Rightarrow> string \<Rightarrow> 'pkg event list" where
  "logFinalStatus finalStatus ecosystem name version lastPhase =
     (let labels = [(''ecosystem'', Str ecosystem), (''name'', Str name),
                    (''version'', Str version), (''last_phase'', Str lastPhase)]
      in case finalStatus of
           StatusCompleted \<Rightarrow> [Log LogInfo ''Analysis completed sucessfully'' labels]
         | StatusErrorAnalysis \<Rightarrow> [Log LogWarn ''Analysis error - analysis'' labels]
         | StatusErrorTimeout \<Rightarrow> [Log LogWarn ''Analysis error - timeout'' labels]
         | StatusErrorOther \<Rightarrow> [Log LogWarn ''Analysis error - other'' labels])"

text \<open>Lines 182 to 187: the upload, when there is a results bucket.\<close>

definition uploadResults ::
  "'pkg env \<Rightarrow> string \<Rightarrow> 'pkg \<Rightarrow> results \<Rightarrow> 'pkg event list \<times> error option" where
  "uploadResults e resultsBucket pkg res =
     (if resultsBucket \<noteq> [] then
        (case resultstore_Save e resultsBucket pkg res of
           Some err \<Rightarrow>
             ([Save resultsBucket pkg res], Some (''failed to upload to blobstore = '' @ err))
         | None \<Rightarrow> ([Save resultsBucket pkg res], None))
      else ([], None))"

text \<open>Lines 113 to 190, after the staging: resolution, the sandbox, the phases, the log of
  the final status, the upload and the acknowledgement. \<^verbatim>\<open>sb.Clean\<close> is deferred once
  the sandbox exists.\<close>

definition analysePackage ::
  "'pkg env \<Rightarrow> 'pkg PkgManager \<Rightarrow> string \<Rightarrow> string \<Rightarrow> string \<Rightarrow> string \<Rightarrow>
   sandbox_Option list \<Rightarrow> string \<Rightarrow> 'pkg event list \<times> error option" where
  "analysePackage e manager ecosystem name version localPkgPath sbOpts resultsBucket =
     (case resolvePkg manager ecosystem name version localPkgPath of
        (evs1, Inl err) \<Rightarrow> (evs1, Some err)
      | (evs1, Inr pkg) \<Rightarrow>
          (let sb = sandbox_New (Image manager) sbOpts
           in case phaseExecutor e sb manager pkg (ecosystem, name, version) of
                (evs2, Inl err) \<Rightarrow> (evs1 @ [SandboxNew sb] @ evs2 @ [SandboxClean sb], Some err)
              | (evs2, Inr (res, finalStatus, lastPhase)) \<Rightarrow>
                  (let evs3 = logFinalStatus finalStatus ecosystem name version lastPhase
                   in case uploadResults e resultsBucket pkg res of
                        (evs4, Some err) \<Rightarrow>
                          (evs1 @ [SandboxNew sb] @ evs2 @ evs3 @ evs4 @ [SandboxClean sb],
                           Some err)
                      | (evs4, None) \<Rightarrow>
                          (evs1 @ [SandboxNew sb] @ evs2 @ evs3 @ evs4 @ [Ack, SandboxClean sb],
                           None))))"

text \<open>Lines 65 to 68: the results bucket of this run, the override of the message when
  it has one.\<close>

definition effectiveBucket :: "pubsub_Message \<Rightarrow> string \<Rightarrow> string" where
  "effectiveBucket msg resultsBucket =
     (let resultsBucketOverride = metadata msg ''results_bucket_override''
      in if resultsBucketOverride \<noteq> [] then resultsBucketOverride else resultsBucket)"

text \<open>Lines 70 to 76: the log of the request.\<close>

definition gotRequest :: "pubsub_Message \<Rightarrow> 'pkg event" where
  "gotRequest msg =
     Log LogInfo ''Got request''
       [(''ecosystem'', Str (metadata msg ''ecosystem'')), (''name'', Str (metadata msg ''name'')),
        (''version'', Str (metadata msg ''version'')),
        (''package_path'', Str (metadata msg ''package_path'')),
        (''results_bucket_override'', Str (metadata msg ''results_bucket_override''))]"

text \<open>\<^verbatim>\<open>handleMessage(ctx, msg, packagesBucket, resultsBucket, imageTag)\<close>: the events
  and the error returned (\<open>None\<close> is nil). \<open>packagesBucket\<close> is \<open>None\<close> for the nil
  pointer.\<close>

definition handleMessage ::
  "'pkg env \<Rightarrow> pubsub_Message \<Rightarrow> string option \<Rightarrow> string \<Rightarrow> string \<Rightarrow>
   'pkg event list \<times> error option" where
  "handleMessage e msg packagesBucket resultsBucket imageTag =
     (let name = metadata msg ''name'' in
      if name = [] then ([Log LogWarn ''name is empty'' [], Ack], None)
      else
        let ecosystem = metadata msg ''ecosystem'' in
        if ecosystem = [] then
          ([Log LogWarn ''ecosystem is empty'' [(''name'', Str name)], Ack], None)
        else
          case Manager e ecosystem of
            None \<Rightarrow>
              ([Log LogWarn ''Unsupported pkg manager''
                  [(''ecosystem'', Str ecosystem), (''name'', Str name)], Ack], None)
          | Some manager \<Rightarrow>
              (let version = metadata msg ''version'';
                   pkgPath = metadata msg ''package_path'';
                   resultsBucket' = effectiveBucket msg resultsBucket
               in case stagePackage e packagesBucket pkgPath [Tag imageTag] of
                    (evs, deferred, Inl err) \<Rightarrow> (gotRequest msg # evs @ deferred, Some err)
                  | (evs, deferred, Inr (localPkgPath, sbOpts)) \<Rightarrow>
                      (case analysePackage e manager ecosystem name version localPkgPath sbOpts
                              resultsBucket' of
                         (evs', r) \<Rightarrow> (gotRequest msg # evs @ evs' @ deferred, r))))"

subsection \<open>messageLoop\<close>

text \<open>The effects of one run of \<^verbatim>\<open>messageLoop\<close>. \<open>Handle\<close> is one call of
  \<^verbatim>\<open>handleMessage\<close>: the packages bucket, the results bucket and the image tag passed
  to it, and its events.\<close>

datatype 'pkg loop_event =
    OpenSubscription string
  | OpenBucket string
  | BucketClose
  | LoopLog log_level string "(string \<times> log_value) list"
  | Receive
  | Handle "string option" string string "'pkg event list"

text \<open>What one run of \<^verbatim>\<open>messageLoop\<close> meets: the outcomes of opening the subscription
  and the packages bucket, the messages \<^verbatim>\<open>sub.Receive\<close> returns, each with the outcomes
  of the external calls made while it is handled, and what \<^verbatim>\<open>sub.Receive\<close> does after
  the last of them: it fails with an error, or (\<open>None\<close>) it blocks for ever.\<close>

record 'pkg subscription =
  pubsub_OpenSubscription :: "error option"
  blob_OpenBucket :: "error option"
  deliveries :: "('pkg env \<times> pubsub_Message) list"
  receiveError :: "error option"

text \<open>Lines 210 to 221: the loop that receives and handles. \<open>None\<close>: it never returns.\<close>

fun receiveLoop ::
  "('pkg env \<times> pubsub_Message) list \<Rightarrow> error option \<Rightarrow> string option \<Rightarrow> string \<Rightarrow> string \<Rightarrow>
   ('pkg loop_event list \<times> error option) option" where
  "receiveLoop [] receiveErr pkgsBkt resultsBucket imageTag =
     (case receiveErr of
        None \<Rightarrow> None
      | Some err \<Rightarrow> Some ([Receive], Some (''error receiving message: '' @ err)))"
| "receiveLoop ((e, msg) # rest) receiveErr pkgsBkt resultsBucket imageTag =
     (case handleMessage e msg pkgsBkt resultsBucket imageTag of
        (evs, err) \<Rightarrow>
          (case receiveLoop rest receiveErr pkgsBkt resultsBucket imageTag of
             None \<Rightarrow> None
           | Some (evs', r) \<Rightarrow>
               Some ([Receive, Handle pkgsBkt resultsBucket imageTag evs]
                     @ (case err of
                          None \<Rightarrow> []
                        | Some x \<Rightarrow> [LoopLog LogError ''Failed to process message'' [(''error'', Str x)]])
                     @ evs', r)))"

text \<open>\<^verbatim>\<open>messageLoop(ctx, subURL, packagesBucket, resultsBucket, imageTag)\<close>: the events
  and the error returned, or \<open>None\<close> when it never returns.\<close>

definition messageLoop ::
  "'pkg subscription \<Rightarrow> string \<Rightarrow> string \<Rightarrow> string \<Rightarrow> string \<Rightarrow>
   ('pkg loop_event list \<times> error option) option" where
  "messageLoop sub subURL packagesBucket resultsBucket imageTag =
     (case pubsub_OpenSubscription sub of
        Some err \<Rightarrow> Some ([OpenSubscription subURL], Some err)
      | None \<Rightarrow>
          (if packagesBucket \<noteq> [] then
             (case blob_OpenBucket sub of
                Some err \<Rightarrow> Some ([OpenSubscription subURL, OpenBucket packagesBucket], Some err)
              | None \<Rightarrow>
                  (case receiveLoop (deliveries sub) (receiveError sub) (Some packagesBucket)
                          resultsBucket imageTag of
                     None \<Rightarrow> None
                   | Some (evs, r) \<Rightarrow>
                       Some ([OpenSubscription subURL, OpenBucket packagesBucket,
                              LoopLog LogInfo ''Listening for messages to process...'' []]
                             @ evs @ [BucketClose], r)))
           else
             (case receiveLoop (deliveries sub) (receiveError sub) None resultsBucket imageTag of
                None \<Rightarrow> None
              | Some (evs, r) \<Rightarrow>
                  Some ([OpenSubscription subURL,
                         LoopLog LogInfo ''Listening for messages to process...'' []]
                        @ evs, r))))"

subsection \<open>retryDelay and main\<close>

text \<open>\<^verbatim>\<open>retryDelay\<close> computes in float64 and converts the floor to \<^verbatim>\<open>int\<close>. A float64
  has a significand of 53 bits, so the power \<open>1.5 ^ n = 3 ^ n / 2 ^ n\<close> is a float64 value,
  and each product that \<^verbatim>\<open>math.Pow\<close> forms on the way to it is exact, while
  \<open>3 ^ n < 2 ^ 53\<close>.\<close>

definition float64_exact_power :: "int \<Rightarrow> bool" where
  "float64_exact_power n = (0 \<le> n \<and> (3 :: int) ^ nat n < 2 ^ 53)"

text \<open>\<^verbatim>\<open>math.Pow(x, float64(y))\<close> for an integer \<open>y\<close>, as the exact power. For
  \<open>x = 1.5\<close> this is the value the program computes where \<open>float64_exact_power y\<close>
  holds, that is for \<open>y\<close> from 0 to 33. From 34 on the program rounds the power to 53 bits,
  which this definition does not.\<close>

definition math_Pow :: "rat \<Rightarrow> int \<Rightarrow> rat" where
  "math_Pow x y = (if 0 \<le> y then x ^ nat y else 1 / x ^ nat (- y))"

text \<open>\<^verbatim>\<open>retryDelay(retryCount)\<close>, with the exact power and an exact floor. It is the value
  of the program where \<open>float64_exact_power retryCount\<close> holds: the floor of a float64 is
  exact, and the values there are below \<open>2 ^ 31\<close>, so they fit the \<^verbatim>\<open>int\<close> of Go whatever
  its width. \<^verbatim>\<open>main\<close> calls \<^verbatim>\<open>retryDelay\<close> with 1 to 9 only. For larger counts the
  program's value depends on the rounding of float64 and, once the floor is beyond the
  64-bit \<^verbatim>\<open>int\<close> (from 108 on), on a conversion that Go leaves to the implementation;
  there this definition is not the program, and nothing is claimed of it.\<close>

definition retryDelay :: "int \<Rightarrow> int" where
  "retryDelay retryCount = \<lfloor>of_int retryInterval * math_Pow retryExpRate retryCount\<rfloor>"

text \<open>The environment variables \<^verbatim>\<open>main\<close> reads.\<close>

record config =
  OSSMALWARE_WORKER_SUBSCRIPTION :: string
  OSSF_MALWARE_ANALYSIS_PACKAGES :: string
  OSSF_MALWARE_ANALYSIS_RESULTS :: string
  OSSF_SANDBOX_IMAGE_TAG :: string

text \<open>The effects of \<^verbatim>\<open>main\<close>. \<open>MessageLoop\<close> is one call of \<^verbatim>\<open>messageLoop\<close> that
  returned, with its events; \<open>Sleep\<close> is \<^verbatim>\<open>time.Sleep\<close>, in seconds.\<close>

datatype 'pkg main_event =
    LogInitalize
  | SandboxInitEnv
  | MainLog log_level string "(string \<times> log_value) list"
  | MessageLoop "'pkg loop_event list"
  | Sleep int

text \<open>Lines 241 to 258: the loop of \<^verbatim>\<open>main\<close>. \<open>subs i\<close> is what call \<open>i\<close> of
  \<^verbatim>\<open>messageLoop\<close> meets; \<open>acc\<close> holds the events so far. The result is \<open>None\<close> when
  \<^verbatim>\<open>main\<close> never leaves the loop, else the events and \<^verbatim>\<open>retryCount\<close> at the
  \<^verbatim>\<open>break\<close>.\<close>

partial_function (option) mainLoop ::
  "(nat \<Rightarrow> 'pkg subscription) \<Rightarrow> config \<Rightarrow> nat \<Rightarrow> int \<Rightarrow> 'pkg main_event list \<Rightarrow>
   ('pkg main_event list \<times> int) option" where
  "mainLoop subs cfg i retryCount acc =
     (case messageLoop (subs i) (OSSMALWARE_WORKER_SUBSCRIPTION cfg)
             (OSSF_MALWARE_ANALYSIS_PACKAGES cfg) (OSSF_MALWARE_ANALYSIS_RESULTS cfg)
             (OSSF_SANDBOX_IMAGE_TAG cfg) of
        None \<Rightarrow> None
      | Some (evs, err) \<Rightarrow>
          (case err of
             Some x \<Rightarrow>
               (if retryCount + 1 \<ge> maxRetries then
                  Some (acc @ [MessageLoop evs,
                               MainLog LogError ''Retries exceeded''
                                 [(''error'', Str x), (''retryCount'', Num (retryCount + 1))]],
                        retryCount + 1)
                else
                  mainLoop subs cfg (Suc i) (retryCount + 1)
                    (acc @ [MessageLoop evs,
                            MainLog LogError ''Error encountered, retrying''
                              [(''error'', Str x), (''retryCount'', Num (retryCount + 1)),
                               (''waitSeconds'', Num (retryDelay (retryCount + 1)))],
                            Sleep (retryDelay (retryCount + 1))]))
           | None \<Rightarrow> mainLoop subs cfg (Suc i) retryCount (acc @ [MessageLoop evs])))"

definition main :: "(nat \<Rightarrow> 'pkg subscription) \<Rightarrow> config \<Rightarrow> ('pkg main_event list \<times> int) option" where
  "main subs cfg =
     mainLoop subs cfg 0 0
       [LogInitalize, SandboxInitEnv,
        MainLog LogInfo ''Starting worker''
          [(''subscription'', Str (OSSMALWARE_WORKER_SUBSCRIPTION cfg)),
           (''package_bucket'', Str (OSSF_MALWARE_ANALYSIS_PACKAGES cfg)),
           (''results_bucket'', Str (OSSF_MALWARE_ANALYSIS_RESULTS cfg)),
           (''image_tag'', Str (OSSF_SANDBOX_IMAGE_TAG cfg))]]"

subsection \<open>Reading a list of events\<close>

text \<open>How often the message was acknowledged.\<close>

fun acks :: "'pkg event list \<Rightarrow> nat" where
  "acks [] = 0"
| "acks (Ack # evs) = Suc (acks evs)"
| "acks (_ # evs) = acks evs"

text \<open>The uploads attempted: the bucket, the package and the map given to
  \<^verbatim>\<open>Save\<close>.\<close>

fun uploads :: "'pkg event list \<Rightarrow> (string \<times> 'pkg \<times> results) list" where
  "uploads [] = []"
| "uploads (Save bucket pkg res # evs) = (bucket, pkg, res) # uploads evs"
| "uploads (_ # evs) = uploads evs"

text \<open>The commands run in the sandbox, in the order of the calls.\<close>

fun runs :: "'pkg event list \<Rightarrow> string list list" where
  "runs [] = []"
| "runs (Run sb cmd # evs) = cmd # runs evs"
| "runs (_ # evs) = runs evs"

text \<open>The names whose latest version was looked up.\<close>

fun lookups :: "'pkg event list \<Rightarrow> string list" where
  "lookups [] = []"
| "lookups (CallLatest name # evs) = name # lookups evs"
| "lookups (_ # evs) = lookups evs"

text \<open>The calls of \<^verbatim>\<open>handleMessage\<close> in a run of \<^verbatim>\<open>messageLoop\<close>: the results bucket
  passed and the uploads attempted.\<close>

fun handled :: "'pkg loop_event list \<Rightarrow> (string \<times> (string \<times> 'pkg \<times> results) list) list" where
  "handled [] = []"
| "handled (Handle pkgsBkt resultsBucket imageTag evs # rest) =
     (resultsBucket, uploads evs) # handled rest"
| "handled (_ # rest) = handled rest"

text \<open>The calls of \<^verbatim>\<open>messageLoop\<close> that returned, the values of \<^verbatim>\<open>retryCount\<close> logged
  and the seconds slept, in a run of \<^verbatim>\<open>main\<close>.\<close>

fun loopCalls :: "'pkg main_event list \<Rightarrow> nat" where
  "loopCalls [] = 0"
| "loopCalls (MessageLoop evs # rest) = Suc (loopCalls rest)"
| "loopCalls (_ # rest) = loopCalls rest"

text \<open>Both error logs of \<^verbatim>\<open>main\<close> carry the error first and \<^verbatim>\<open>retryCount\<close>
  second.\<close>

fun retryCounts :: "'pkg main_event list \<Rightarrow> int list" where
  "retryCounts [] = []"
| "retryCounts (MainLog LogError text ((k, v) # (k', Num n) # labels) # rest) = n # retryCounts rest"
| "retryCounts (_ # rest) = retryCounts rest"

fun sleeps :: "'pkg main_event list \<Rightarrow> int list" where
  "sleeps [] = []"
| "sleeps (Sleep d # rest) = d # sleeps rest"
| "sleeps (_ # rest) = sleeps rest"

subsection \<open>A concrete ecosystem, environment and messages\<close>

text \<open>Packages as triples of name, version and local path.\<close>

definition npm :: "(string \<times> string \<times> string) PkgManager" where
  "npm = \<lparr>Image = ''node'',
          Local = (\<lambda>name version path. (name, version, path)),
          Package = (\<lambda>name version. (name, version, [])),
          Latest = (\<lambda>name. Inr (name, ''2.0.0'', [])),
          DynamicPhases = [''install'', ''import''],
          Command = (\<lambda>pkg phase. [''analyze'', phase, fst pkg, fst (snd pkg), snd (snd pkg)])\<rparr>"

definition completed :: analysis_Result where
  "completed = \<lparr>Status = StatusCompleted, phaseOutput = []\<rparr>"

definition timedOut :: analysis_Result where
  "timedOut = \<lparr>Status = StatusErrorTimeout, phaseOutput = []\<rparr>"

text \<open>An environment in which every external call succeeds and every phase completes.\<close>

definition calm :: "(string \<times> string \<times> string) env" where
  "calm = \<lparr>Manager = (\<lambda>ecosystem. if ecosystem = ''npm'' then Some npm else None),
           bucket_NewReader = (\<lambda>path. None),
           ioutil_TempFile = Inr ''/tmp/001'',
           io_Copy = None,
           file_Close = None,
           analysis_Run = (\<lambda>i sb cmd. Inr completed),
           resultstore_Save = (\<lambda>bucket pkg res. None)\<rparr>"

definition leftPad :: pubsub_Message where
  "leftPad = \<lparr>Metadata = [''name'' \<mapsto> ''left-pad'', ''ecosystem'' \<mapsto> ''npm'',
                           ''version'' \<mapsto> ''1.0.0'']\<rparr>"

text \<open>Variants: every phase times out; the two phases in the other order; one phase
  listed twice; the registry of versions cannot be reached; an ecosystem without
  phases.\<close>

definition stormy :: "(string \<times> string \<times> string) env" where
  "stormy = calm\<lparr>analysis_Run := \<lambda>i sb cmd. Inr timedOut\<rparr>"

definition nodeSandbox :: Sandbox where
  "nodeSandbox = sandbox_New ''node'' [Tag ''latest'']"

definition npmSwapped :: "(string \<times> string \<times> string) PkgManager" where
  "npmSwapped = npm\<lparr>DynamicPhases := [''import'', ''install'']\<rparr>"

definition calmSwapped :: "(string \<times> string \<times> string) env" where
  "calmSwapped = calm\<lparr>Manager := \<lambda>ecosystem. if ecosystem = ''npm'' then Some npmSwapped else None\<rparr>"

definition npmTwice :: "(string \<times> string \<times> string) PkgManager" where
  "npmTwice = npm\<lparr>DynamicPhases := [''install'', ''install'']\<rparr>"

definition calmTwice :: "(string \<times> string \<times> string) env" where
  "calmTwice = calm\<lparr>Manager := \<lambda>ecosystem. if ecosystem = ''npm'' then Some npmTwice else None\<rparr>"

definition npmOffline :: "(string \<times> string \<times> string) PkgManager" where
  "npmOffline = npm\<lparr>Latest := \<lambda>name. Inl ''registry unreachable''\<rparr>"

definition offline :: "(string \<times> string \<times> string) env" where
  "offline = calm\<lparr>Manager := \<lambda>ecosystem. if ecosystem = ''npm'' then Some npmOffline else None\<rparr>"

definition npmIdle :: "(string \<times> string \<times> string) PkgManager" where
  "npmIdle = npm\<lparr>DynamicPhases := []\<rparr>"

definition idle :: "(string \<times> string \<times> string) env" where
  "idle = calm\<lparr>Manager := \<lambda>ecosystem. if ecosystem = ''npm'' then Some npmIdle else None\<rparr>"

text \<open>Messages: without a version; without a name but with a package path; with a
  package path; with an override of the results bucket; without an ecosystem; of an
  ecosystem that has no package manager.\<close>

definition evilPkg :: pubsub_Message where
  "evilPkg = \<lparr>Metadata = [''name'' \<mapsto> ''evil-pkg'', ''ecosystem'' \<mapsto> ''npm'']\<rparr>"

definition nameless :: pubsub_Message where
  "nameless = \<lparr>Metadata = [''ecosystem'' \<mapsto> ''npm'', ''package_path'' \<mapsto> ''pkgs/x.tgz'']\<rparr>"

definition stagedPkg :: pubsub_Message where
  "stagedPkg = \<lparr>Metadata = [''name'' \<mapsto> ''left-pad'', ''ecosystem'' \<mapsto> ''npm'',
                          ''package_path'' \<mapsto> ''pkgs/left-pad.tgz'']\<rparr>"

definition redirected :: pubsub_Message where
  "redirected = \<lparr>Metadata = [''name'' \<mapsto> ''left-pad'', ''ecosystem'' \<mapsto> ''npm'',
                              ''version'' \<mapsto> ''1.0.0'',
                              ''results_bucket_override'' \<mapsto> ''elsewhere'']\<rparr>"

definition unnamedEcosystem :: pubsub_Message where
  "unnamedEcosystem = \<lparr>Metadata = [''name'' \<mapsto> ''left-pad'']\<rparr>"

definition cobolPkg :: pubsub_Message where
  "cobolPkg = \<lparr>Metadata = [''name'' \<mapsto> ''left-pad'', ''ecosystem'' \<mapsto> ''cobol'']\<rparr>"

text \<open>A subscription that delivers two messages, the first with an override, and then
  fails; and the configuration of a worker without a packages bucket.\<close>

definition twoMessages :: "(string \<times> string \<times> string) subscription" where
  "twoMessages = \<lparr>pubsub_OpenSubscription = None, blob_OpenBucket = None,
                   deliveries = [(calm, redirected), (calm, leftPad)],
                   receiveError = Some ''subscription closed''\<rparr>"

definition worker :: config where
  "worker = \<lparr>OSSMALWARE_WORKER_SUBSCRIPTION = ''sub'', OSSF_MALWARE_ANALYSIS_PACKAGES = [],
              OSSF_MALWARE_ANALYSIS_RESULTS = ''results'', OSSF_SANDBOX_IMAGE_TAG = ''latest''\<rparr>"

lemmas handler_defs =
  handleMessage_def metadata_def effectiveBucket_def gotRequest_def stagePackage_def
  analysePackage_def resolvePkg_def phaseExecutor_def sandbox_New_def logFinalStatus_def
  uploadResults_def localPkgPathFmt_def path_Base_def Let_def

lemmas example_defs =
  calm_def npm_def leftPad_def completed_def timedOut_def stormy_def nodeSandbox_def
  npmSwapped_def calmSwapped_def npmTwice_def calmTwice_def npmOffline_def offline_def npmIdle_def idle_def evilPkg_def
  nameless_def stagedPkg_def redirected_def unnamedEcosystem_def cobolPkg_def twoMessages_def

section \<open>The retry delay\<close>

lemma retryDelay_nat: "retryDelay (int n) = \<lfloor>(3 / 2 :: rat) ^ n\<rfloor>"
  by (simp add: retryDelay_def math_Pow_def retryInterval_def retryExpRate_def)

lemma retryDelay_values:
  "map retryDelay [0, 1, 2, 3, 4, 5, 6, 7, 8, 9, 10] = [1, 1, 2, 3, 5, 7, 11, 17, 25, 38, 57]"
  by code_simp

text \<open>The counts at which the power is a float64 value are 0 to 33, and the delays there
  are small.\<close>

lemma float64_exact_power_iff: "float64_exact_power n = (0 \<le> n \<and> n \<le> 33)"
proof (cases "0 \<le> n")
  case False
  then show ?thesis by (simp add: float64_exact_power_def)
next
  case True
  then obtain k where k: "n = int k" by (metis nat_0_le)
  have "((3 :: int) ^ k < 2 ^ 53) = (k \<le> 33)"
  proof
    assume small: "(3 :: int) ^ k < 2 ^ 53"
    show "k \<le> 33"
    proof (rule ccontr)
      assume "\<not> k \<le> 33"
      then have "34 \<le> k" by simp
      then have "(3 :: int) ^ 34 \<le> 3 ^ k" by (intro power_increasing) simp_all
      moreover have "(2 :: int) ^ 53 < 3 ^ 34" by simp
      ultimately show False using small by simp
    qed
  next
    assume "k \<le> 33"
    then have "(3 :: int) ^ k \<le> 3 ^ 33" by (intro power_increasing) simp_all
    moreover have "(3 :: int) ^ 33 < 2 ^ 53" by simp
    ultimately show "(3 :: int) ^ k < 2 ^ 53" by simp
  qed
  with k show ?thesis by (simp add: float64_exact_power_def)
qed

lemma retryDelay_fits_int: "retryDelay 33 < 2 ^ 31"
  by code_simp

text \<open>The exact floor leaves the 64-bit \<^verbatim>\<open>int\<close> at 108: from there on the program cannot
  return it.\<close>

lemma retryDelay_beyond_int64: "retryDelay 107 \<le> 2 ^ 63 - 1 \<and> 2 ^ 63 - 1 < retryDelay 108"
  by code_simp

lemma pow_ge_2: "2 \<le> n \<Longrightarrow> (2 :: rat) \<le> (3 / 2) ^ n"
proof (induction n rule: dec_induct)
  case base
  show ?case by (simp add: power2_eq_square)
next
  case (step k)
  have "(3 / 2 :: rat) ^ k \<le> (3 / 2) ^ k * (3 / 2)" by simp
  with step.IH show ?case by simp
qed

lemma floor_pow_step: "2 \<le> n \<Longrightarrow> \<lfloor>(3 / 2 :: rat) ^ n\<rfloor> < \<lfloor>(3 / 2 :: rat) ^ Suc n\<rfloor>"
proof -
  assume n: "2 \<le> n"
  have "(3 / 2 :: rat) ^ Suc n = (3 / 2) ^ n + (3 / 2) ^ n / 2" by simp
  also have "\<dots> \<ge> (3 / 2) ^ n + 1" using pow_ge_2 [OF n] by simp
  finally have "\<lfloor>(3 / 2 :: rat) ^ n + 1\<rfloor> \<le> \<lfloor>(3 / 2 :: rat) ^ Suc n\<rfloor>" by (rule floor_mono)
  then show ?thesis by simp
qed

text \<open>C3, as stated: the delay \<open>floor (1 * 1.5 ^ n)\<close> is strictly increasing for every
  \<open>n \<ge> 0\<close>. It is not at \<open>n = 0\<close>: \<open>floor (1.5 ^ 0) = 1 = floor (1.5 ^ 1)\<close>, so the
  delay after the first failure equals the delay for no failure.\<close>

theorem retryDelay_not_increasing_at_0: "\<not> retryDelay 0 < retryDelay (0 + 1)"
  by code_simp

text \<open>C3, amended: from the first failure on the delay is strictly increasing, as far as
  float64 holds the powers exactly: \<open>delay (n + 1) > delay n\<close> for every \<open>n \<ge> 1\<close> at
  which \<open>1.5 ^ (n + 1)\<close> is a float64 value, that is for \<open>n\<close> from 1 to 32. These counts
  include all that the worker reaches (1 to 9).\<close>

theorem retryDelay_increasing_from_1:
  assumes "1 \<le> n" and "float64_exact_power (n + 1)"
  shows "retryDelay n < retryDelay (n + 1)"
proof -
  from assms(1) have "n = int (nat n)" and "1 \<le> nat n" by simp_all
  then obtain k where k: "n = int k" and k1: "1 \<le> k" by blast
  from assms(2) have "k \<le> 32" by (simp add: float64_exact_power_iff k)
  have next_count: "n + 1 = int (Suc k)" by (simp add: k)
  show ?thesis
  proof (cases "k = 1")
    case True
    have "retryDelay 1 < retryDelay 2" using retryDelay_values by simp
    with True k show ?thesis by simp
  next
    case False
    with k1 have "2 \<le> k" by simp
    from floor_pow_step [OF this] show ?thesis
      unfolding next_count unfolding k by (simp only: retryDelay_nat)
  qed
qed

theorem retryDelay_increasing_from_1_witness:
  "(1 :: int) \<le> 9 \<and> float64_exact_power (9 + 1) \<and> retryDelay 9 < retryDelay (9 + 1) \<and>
   (1 :: int) \<le> 32 \<and> float64_exact_power (32 + 1) \<and> retryDelay 32 < retryDelay (32 + 1)"
proof -
  have nine: "float64_exact_power (9 + 1)" and last: "float64_exact_power (32 + 1)"
    by (simp_all add: float64_exact_power_iff)
  show ?thesis
    using retryDelay_increasing_from_1 [of 9, OF _ nine]
      retryDelay_increasing_from_1 [of 32, OF _ last] nine last
    by simp
qed

section \<open>The events of a handler run\<close>

lemma acks_append [simp]: "acks (xs @ ys) = acks xs + acks ys"
  by (induction xs rule: acks.induct) simp_all

lemma uploads_append [simp]: "uploads (xs @ ys) = uploads xs @ uploads ys"
  by (induction xs rule: uploads.induct) simp_all

lemma runs_append [simp]: "runs (xs @ ys) = runs xs @ runs ys"
  by (induction xs rule: runs.induct) simp_all

lemma lookups_append [simp]: "lookups (xs @ ys) = lookups xs @ lookups ys"
  by (induction xs rule: lookups.induct) simp_all

lemma handled_append: "handled (xs @ ys) = handled xs @ handled ys"
  by (induction xs rule: handled.induct) simp_all

text \<open>The five ways through \<^verbatim>\<open>handleMessage\<close>: the three drops, a failed staging, and a
  staged (or unstaged) package that is analysed.\<close>

lemma handleMessage_cases [case_names no_name no_ecosystem unsupported staging_failed staged]:
  fixes e :: "'pkg env"
  assumes "metadata msg ''name'' = [] \<Longrightarrow>
      handleMessage e msg pb b tag = ([Log LogWarn ''name is empty'' [], Ack], None) \<Longrightarrow> P"
    and "metadata msg ''name'' \<noteq> [] \<Longrightarrow> metadata msg ''ecosystem'' = [] \<Longrightarrow>
      handleMessage e msg pb b tag =
        ([Log LogWarn ''ecosystem is empty'' [(''name'', Str (metadata msg ''name''))], Ack], None)
      \<Longrightarrow> P"
    and "metadata msg ''name'' \<noteq> [] \<Longrightarrow> metadata msg ''ecosystem'' \<noteq> [] \<Longrightarrow>
      Manager e (metadata msg ''ecosystem'') = None \<Longrightarrow>
      handleMessage e msg pb b tag =
        ([Log LogWarn ''Unsupported pkg manager''
            [(''ecosystem'', Str (metadata msg ''ecosystem'')),
             (''name'', Str (metadata msg ''name''))], Ack], None)
      \<Longrightarrow> P"
    and "\<And>m evs deferred err.
      metadata msg ''name'' \<noteq> [] \<Longrightarrow> metadata msg ''ecosystem'' \<noteq> [] \<Longrightarrow>
      Manager e (metadata msg ''ecosystem'') = Some m \<Longrightarrow>
      stagePackage e pb (metadata msg ''package_path'') [Tag tag] = (evs, deferred, Inl err) \<Longrightarrow>
      handleMessage e msg pb b tag = (gotRequest msg # evs @ deferred, Some err) \<Longrightarrow> P"
    and "\<And>m evs deferred localPkgPath sbOpts evs' r.
      metadata msg ''name'' \<noteq> [] \<Longrightarrow> metadata msg ''ecosystem'' \<noteq> [] \<Longrightarrow>
      Manager e (metadata msg ''ecosystem'') = Some m \<Longrightarrow>
      stagePackage e pb (metadata msg ''package_path'') [Tag tag] =
        (evs, deferred, Inr (localPkgPath, sbOpts)) \<Longrightarrow>
      analysePackage e m (metadata msg ''ecosystem'') (metadata msg ''name'')
        (metadata msg ''version'') localPkgPath sbOpts (effectiveBucket msg b) = (evs', r) \<Longrightarrow>
      handleMessage e msg pb b tag = (gotRequest msg # evs @ evs' @ deferred, r) \<Longrightarrow> P"
  shows P
proof (cases "metadata msg ''name'' = []")
  case True
  then show ?thesis using assms(1) by (simp add: handleMessage_def)
next
  case name: False
  show ?thesis
  proof (cases "metadata msg ''ecosystem'' = []")
    case True
    then show ?thesis using assms(2) name by (simp add: handleMessage_def)
  next
    case eco: False
    show ?thesis
    proof (cases "Manager e (metadata msg ''ecosystem'')")
      case None
      then show ?thesis using assms(3) name eco by (simp add: handleMessage_def)
    next
      case (Some m)
      obtain evs deferred r where
        st: "stagePackage e pb (metadata msg ''package_path'') [Tag tag] = (evs, deferred, r)"
        by (metis prod_cases3)
      show ?thesis
      proof (cases r)
        case (Inl err)
        with st Some name eco show ?thesis
          using assms(4) by (simp add: handleMessage_def)
      next
        case (Inr staged)
        obtain localPkgPath sbOpts where staged: "staged = (localPkgPath, sbOpts)"
          by (cases staged) auto
        obtain evs' r' where
          an: "analysePackage e m (metadata msg ''ecosystem'') (metadata msg ''name'')
                 (metadata msg ''version'') localPkgPath sbOpts (effectiveBucket msg b) = (evs', r')"
          by (metis surj_pair)
        from st Some name eco Inr staged an show ?thesis
          using assms(5) by (simp add: handleMessage_def)
      qed
    qed
  qed
qed

text \<open>The four ways through the rest of the handler: a failed lookup of the latest
  version, a phase that could not be run, a failed upload, and the acknowledgement.\<close>

lemma analysePackage_cases [case_names unresolved run_failed upload_failed acknowledged]:
  fixes e :: "'pkg env"
  assumes "\<And>evs1 err.
      resolvePkg m eco name version lp = (evs1, Inl err) \<Longrightarrow>
      analysePackage e m eco name version lp opts b = (evs1, Some err) \<Longrightarrow> P"
    and "\<And>evs1 pkg evs2 err.
      resolvePkg m eco name version lp = (evs1, Inr pkg) \<Longrightarrow>
      phaseExecutor e (sandbox_New (Image m) opts) m pkg (eco, name, version) = (evs2, Inl err) \<Longrightarrow>
      analysePackage e m eco name version lp opts b =
        (evs1 @ [SandboxNew (sandbox_New (Image m) opts)] @ evs2
           @ [SandboxClean (sandbox_New (Image m) opts)], Some err) \<Longrightarrow> P"
    and "\<And>evs1 pkg evs2 res finalStatus lastPhase evs4 err.
      resolvePkg m eco name version lp = (evs1, Inr pkg) \<Longrightarrow>
      phaseExecutor e (sandbox_New (Image m) opts) m pkg (eco, name, version) =
        (evs2, Inr (res, finalStatus, lastPhase)) \<Longrightarrow>
      uploadResults e b pkg res = (evs4, Some err) \<Longrightarrow>
      analysePackage e m eco name version lp opts b =
        (evs1 @ [SandboxNew (sandbox_New (Image m) opts)] @ evs2
           @ logFinalStatus finalStatus eco name version lastPhase @ evs4
           @ [SandboxClean (sandbox_New (Image m) opts)], Some err) \<Longrightarrow> P"
    and "\<And>evs1 pkg evs2 res finalStatus lastPhase evs4.
      resolvePkg m eco name version lp = (evs1, Inr pkg) \<Longrightarrow>
      phaseExecutor e (sandbox_New (Image m) opts) m pkg (eco, name, version) =
        (evs2, Inr (res, finalStatus, lastPhase)) \<Longrightarrow>
      uploadResults e b pkg res = (evs4, None) \<Longrightarrow>
      analysePackage e m eco name version lp opts b =
        (evs1 @ [SandboxNew (sandbox_New (Image m) opts)] @ evs2
           @ logFinalStatus finalStatus eco name version lastPhase @ evs4
           @ [Ack, SandboxClean (sandbox_New (Image m) opts)], None) \<Longrightarrow> P"
  shows P
proof -
  obtain evs1 r1 where rs: "resolvePkg m eco name version lp = (evs1, r1)"
    by (metis surj_pair)
  show ?thesis
  proof (cases r1)
    case (Inl err)
    with rs show ?thesis using assms(1) by (simp add: analysePackage_def Let_def)
  next
    case (Inr pkg)
    obtain evs2 r2 where
      ex: "phaseExecutor e (sandbox_New (Image m) opts) m pkg (eco, name, version) = (evs2, r2)"
      by (metis surj_pair)
    show ?thesis
    proof (cases r2)
      case (Inl err)
      with rs Inr ex show ?thesis using assms(2) by (simp add: analysePackage_def Let_def)
    next
      case out: (Inr outcome)
      obtain res finalStatus lastPhase where outcome: "outcome = (res, finalStatus, lastPhase)"
        by (cases outcome) auto
      obtain evs4 r4 where up: "uploadResults e b pkg res = (evs4, r4)"
        by (metis surj_pair)
      show ?thesis
      proof (cases r4)
        case None
        with rs Inr ex out outcome up show ?thesis
          using assms(4) by (simp add: analysePackage_def Let_def)
      next
        case (Some err)
        with rs Inr ex out outcome up show ?thesis
          using assms(3) by (simp add: analysePackage_def Let_def)
      qed
    qed
  qed
qed

lemma handleMessage_executed:
  assumes "metadata msg ''name'' \<noteq> []" and "metadata msg ''ecosystem'' \<noteq> []"
    and "Manager e (metadata msg ''ecosystem'') = Some m"
    and "stagePackage e pb (metadata msg ''package_path'') [Tag tag] =
           (evs, deferred, Inr (lp, opts))"
    and "resolvePkg m (metadata msg ''ecosystem'') (metadata msg ''name'')
           (metadata msg ''version'') lp = (evs1, Inr pkg)"
    and "phaseExecutor e (sandbox_New (Image m) opts) m pkg
           (metadata msg ''ecosystem'', metadata msg ''name'', metadata msg ''version'') =
           (evs2, Inr (res, finalStatus, lastPhase))"
  shows "handleMessage e msg pb b tag =
           (gotRequest msg # evs @ evs1 @ [SandboxNew (sandbox_New (Image m) opts)] @ evs2
              @ logFinalStatus finalStatus (metadata msg ''ecosystem'') (metadata msg ''name'')
                  (metadata msg ''version'') lastPhase
              @ fst (uploadResults e (effectiveBucket msg b) pkg res)
              @ (if snd (uploadResults e (effectiveBucket msg b) pkg res) = None then [Ack] else [])
              @ [SandboxClean (sandbox_New (Image m) opts)] @ deferred,
            snd (uploadResults e (effectiveBucket msg b) pkg res))"
  using assms
  by (simp add: handleMessage_def analysePackage_def Let_def split: prod.splits option.splits)

subsection \<open>What each step acknowledges, uploads, runs and looks up\<close>

lemma stagePackage_acks:
  assumes "stagePackage e pb pkgPath opts = (evs, deferred, r)"
  shows "acks evs = 0 \<and> acks deferred = 0"
  using assms
  by (auto simp: stagePackage_def Let_def split: if_splits option.splits sum.splits)

lemma resolvePkg_acks:
  assumes "resolvePkg m eco name version lp = (evs, r)"
  shows "acks evs = 0"
  using assms
  by (auto simp: resolvePkg_def split: if_splits sum.splits)

lemma runPhases_acks:
  "runPhases e sb m pkg labels i phases acc = (evs, r) \<Longrightarrow> acks evs = 0"
proof (induction phases arbitrary: i acc evs r)
  case Nil
  then show ?case by simp
next
  case (Cons phase rest)
  obtain res fs lp where acc: "acc = (res, fs, lp)" by (cases acc) auto
  show ?case
    using Cons.prems Cons.IH unfolding acc
    by (auto split: sum.splits if_splits prod.splits)
qed

lemma logFinalStatus_acks: "acks (logFinalStatus fs eco name version lp) = 0"
  by (cases fs) (simp_all add: logFinalStatus_def)

lemma uploadResults_acks:
  assumes "uploadResults e b pkg res = (evs, r)"
  shows "acks evs = 0"
  using assms by (auto simp: uploadResults_def split: if_splits option.splits)

lemma analysePackage_acks:
  "acks (fst (analysePackage e m eco name version lp opts b)) =
     (if snd (analysePackage e m eco name version lp opts b) = None then 1 else 0)"
proof (cases e m eco name version lp opts b rule: analysePackage_cases)
  case (unresolved evs1 err)
  with resolvePkg_acks [OF unresolved(1)] show ?thesis by simp
next
  case (run_failed evs1 pkg evs2 err)
  with resolvePkg_acks [OF run_failed(1)]
    runPhases_acks [OF run_failed(2) [unfolded phaseExecutor_def]]
  show ?thesis by simp
next
  case (upload_failed evs1 pkg evs2 res finalStatus lastPhase evs4 err)
  with resolvePkg_acks [OF upload_failed(1)]
    runPhases_acks [OF upload_failed(2) [unfolded phaseExecutor_def]]
    uploadResults_acks [OF upload_failed(3)]
  show ?thesis by (simp add: logFinalStatus_acks)
next
  case (acknowledged evs1 pkg evs2 res finalStatus lastPhase evs4)
  with resolvePkg_acks [OF acknowledged(1)]
    runPhases_acks [OF acknowledged(2) [unfolded phaseExecutor_def]]
    uploadResults_acks [OF acknowledged(3)]
  show ?thesis by (simp add: logFinalStatus_acks)
qed

lemma stagePackage_quiet:
  assumes "stagePackage e pb pkgPath opts = (evs, deferred, r)"
  shows "uploads evs = [] \<and> uploads deferred = [] \<and> runs evs = [] \<and> runs deferred = [] \<and>
         lookups evs = [] \<and> lookups deferred = []"
  using assms
  by (auto simp: stagePackage_def Let_def split: if_splits option.splits sum.splits)

lemma resolvePkg_quiet:
  assumes "resolvePkg m eco name version lp = (evs, r)"
  shows "uploads evs = [] \<and> runs evs = []"
  using assms
  by (auto simp: resolvePkg_def split: if_splits sum.splits)

lemma runPhases_quiet:
  "runPhases e sb m pkg labels i phases acc = (evs, r) \<Longrightarrow> uploads evs = [] \<and> lookups evs = []"
proof (induction phases arbitrary: i acc evs r)
  case Nil
  then show ?case by simp
next
  case (Cons phase rest)
  obtain res fs lp where acc: "acc = (res, fs, lp)" by (cases acc) auto
  show ?case
    using Cons.prems Cons.IH unfolding acc
    by (auto split: sum.splits if_splits prod.splits)
qed

lemma phaseExecutor_quiet:
  assumes "phaseExecutor e sb m pkg labels = (evs, r)"
  shows "acks evs = 0 \<and> uploads evs = [] \<and> lookups evs = []"
  using runPhases_quiet [OF assms [unfolded phaseExecutor_def]]
    runPhases_acks [OF assms [unfolded phaseExecutor_def]]
  by simp

lemma logFinalStatus_quiet:
  "uploads (logFinalStatus fs eco name version lp) = [] \<and>
   runs (logFinalStatus fs eco name version lp) = [] \<and>
   lookups (logFinalStatus fs eco name version lp) = []"
  by (cases fs) (simp_all add: logFinalStatus_def)

lemma uploadResults_events:
  "fst (uploadResults e b pkg res) = (if b \<noteq> [] then [Save b pkg res] else [])"
  by (simp add: uploadResults_def split: option.splits)

lemma stagePackage_local:
  "stagePackage e pb pkgPath opts = (evs, deferred, Inr (lp, opts')) \<Longrightarrow> (lp \<noteq> []) = (pkgPath \<noteq> [])"
  by (auto simp: stagePackage_def Let_def localPkgPathFmt_def
      split: if_splits option.splits sum.splits)

lemma stagePackage_failed:
  "stagePackage e pb pkgPath opts = (evs, deferred, Inl err) \<Longrightarrow> pkgPath \<noteq> []"
  by (auto simp: stagePackage_def)

section \<open>The phase executor\<close>

lemma runPhases_all_completed:
  assumes "\<forall>j<length phases. \<exists>r. analysis_Run e (i + j) sb (Command m pkg (phases ! j)) = Inr r \<and>
             Status r = StatusCompleted"
  shows "\<exists>res'. runPhases e sb m pkg labels i phases (res, fs, lp) =
           (map (\<lambda>p. Run sb (Command m pkg p)) phases,
            Inr (res', if phases = [] then fs else StatusCompleted,
                 if phases = [] then lp else last phases))"
  using assms
proof (induction phases arbitrary: i res fs lp)
  case Nil
  then show ?case by simp
next
  case (Cons phase rest)
  from Cons.prems obtain r where
    r: "analysis_Run e i sb (Command m pkg phase) = Inr r" "Status r = StatusCompleted"
    by fastforce
  have "\<forall>j<length rest. \<exists>r. analysis_Run e (Suc i + j) sb (Command m pkg (rest ! j)) = Inr r \<and>
          Status r = StatusCompleted"
    using Cons.prems by fastforce
  from Cons.IH [OF this, of "res(phase \<mapsto> r)" StatusCompleted phase]
  obtain res' where
    "runPhases e sb m pkg labels (Suc i) rest (res(phase \<mapsto> r), StatusCompleted, phase) =
       (map (\<lambda>p. Run sb (Command m pkg p)) rest,
        Inr (res', if rest = [] then StatusCompleted else StatusCompleted,
             if rest = [] then phase else last rest))"
    by blast
  with r show ?case by simp
qed

lemma runPhases_stops:
  assumes "k < length phases"
    and "\<forall>j<k. \<exists>r. analysis_Run e (i + j) sb (Command m pkg (phases ! j)) = Inr r \<and>
           Status r = StatusCompleted"
    and "analysis_Run e (i + k) sb (Command m pkg (phases ! k)) = Inr r"
    and "Status r \<noteq> StatusCompleted"
  shows "\<exists>res'. runPhases e sb m pkg labels i phases (res, fs, lp) =
           (map (\<lambda>p. Run sb (Command m pkg p)) (take (Suc k) phases),
            Inr (res', Status r, phases ! k))"
  using assms
proof (induction phases arbitrary: i k res fs lp)
  case Nil
  then show ?case by simp
next
  case (Cons phase rest)
  show ?case
  proof (cases k)
    case 0
    with Cons.prems show ?thesis by simp
  next
    case (Suc k')
    from Cons.prems(2) Suc obtain r0 where
      r0: "analysis_Run e i sb (Command m pkg phase) = Inr r0" "Status r0 = StatusCompleted"
      by fastforce
    have k': "k' < length rest" using Cons.prems(1) Suc by simp
    have pre: "\<forall>j<k'. \<exists>r. analysis_Run e (Suc i + j) sb (Command m pkg (rest ! j)) = Inr r \<and>
                 Status r = StatusCompleted"
      using Cons.prems(2) Suc by fastforce
    have at: "analysis_Run e (Suc i + k') sb (Command m pkg (rest ! k')) = Inr r"
      using Cons.prems(3) Suc by simp
    from Cons.IH [OF k' pre at Cons.prems(4), of "res(phase \<mapsto> r0)" StatusCompleted phase]
    obtain res' where
      "runPhases e sb m pkg labels (Suc i) rest (res(phase \<mapsto> r0), StatusCompleted, phase) =
         (map (\<lambda>p. Run sb (Command m pkg p)) (take (Suc k') rest),
          Inr (res', Status r, rest ! k'))"
      by blast
    with r0 Suc show ?thesis by simp
  qed
qed

lemma handleMessage_runs:
  assumes "metadata msg ''name'' \<noteq> []" and "metadata msg ''ecosystem'' \<noteq> []"
    and "Manager e (metadata msg ''ecosystem'') = Some m"
    and "stagePackage e pb (metadata msg ''package_path'') [Tag tag] =
           (evs, deferred, Inr (lp, opts))"
    and "resolvePkg m (metadata msg ''ecosystem'') (metadata msg ''name'')
           (metadata msg ''version'') lp = (evs1, Inr pkg)"
  shows "runs (fst (handleMessage e msg pb b tag)) =
           runs (fst (phaseExecutor e (sandbox_New (Image m) opts) m pkg
             (metadata msg ''ecosystem'', metadata msg ''name'', metadata msg ''version'')))"
proof -
  obtain evs2 r2 where
    ex: "phaseExecutor e (sandbox_New (Image m) opts) m pkg
           (metadata msg ''ecosystem'', metadata msg ''name'', metadata msg ''version'') =
           (evs2, r2)"
    by (metis surj_pair)
  show ?thesis
  proof (cases r2)
    case (Inl err)
    with assms ex have "handleMessage e msg pb b tag =
        (gotRequest msg # evs @ evs1 @ [SandboxNew (sandbox_New (Image m) opts)] @ evs2
           @ [SandboxClean (sandbox_New (Image m) opts)] @ deferred, Some err)"
      by (simp add: handleMessage_def analysePackage_def Let_def)
    with ex stagePackage_quiet [OF assms(4)] resolvePkg_quiet [OF assms(5)]
    show ?thesis by (simp add: gotRequest_def)
  next
    case (Inr out)
    obtain res finalStatus lastPhase where out: "out = (res, finalStatus, lastPhase)"
      by (cases out) auto
    from ex Inr out stagePackage_quiet [OF assms(4)] resolvePkg_quiet [OF assms(5)]
    show ?thesis
      by (simp add: handleMessage_executed [OF assms ex [unfolded Inr out]] gotRequest_def
          logFinalStatus_quiet uploadResults_events)
  qed
qed

text \<open>C1. The executor runs the phases of the package manager in the order of the list
  and stops at the first phase whose status is not Completed. When the phases before
  phase \<open>k\<close> complete and phase \<open>k\<close> yields another status, the commands run are
  those of the phases up to \<open>k\<close> and no other, in order, \<^verbatim>\<open>finalStatus\<close> is the status
  of phase \<open>k\<close> and \<^verbatim>\<open>lastPhase\<close> its name. When every phase completes, all the
  commands are run in order, \<^verbatim>\<open>finalStatus\<close> is Completed and \<^verbatim>\<open>lastPhase\<close> is the last
  phase of the list (the empty string when the list is empty). A run of \<^verbatim>\<open>handleMessage\<close>
  that gets to the executor runs the commands of the executor and no other.\<close>

theorem phaseExecutor_stops_at_first_failure:
  "(k < length (DynamicPhases m) \<and>
    (\<forall>j<k. \<exists>r. analysis_Run e j sb (Command m pkg (DynamicPhases m ! j)) = Inr r \<and>
               Status r = StatusCompleted) \<and>
    analysis_Run e k sb (Command m pkg (DynamicPhases m ! k)) = Inr result \<and>
    Status result \<noteq> StatusCompleted \<longrightarrow>
      (\<exists>res. phaseExecutor e sb m pkg labels =
         (map (\<lambda>p. Run sb (Command m pkg p)) (take (Suc k) (DynamicPhases m)),
          Inr (res, Status result, DynamicPhases m ! k)))) \<and>
   ((\<forall>j<length (DynamicPhases m).
       \<exists>r. analysis_Run e j sb (Command m pkg (DynamicPhases m ! j)) = Inr r \<and>
           Status r = StatusCompleted) \<longrightarrow>
      (\<exists>res. phaseExecutor e sb m pkg labels =
         (map (\<lambda>p. Run sb (Command m pkg p)) (DynamicPhases m),
          Inr (res, StatusCompleted,
               if DynamicPhases m = [] then [] else last (DynamicPhases m))))) \<and>
   (metadata msg ''name'' \<noteq> [] \<and> metadata msg ''ecosystem'' \<noteq> [] \<and>
    Manager e (metadata msg ''ecosystem'') = Some m \<and>
    stagePackage e pb (metadata msg ''package_path'') [Tag tag] =
      (evs0, deferred, Inr (lp, opts)) \<and>
    resolvePkg m (metadata msg ''ecosystem'') (metadata msg ''name'')
      (metadata msg ''version'') lp = (evs1, Inr pkg) \<longrightarrow>
      runs (fst (handleMessage e msg pb b tag)) =
        runs (fst (phaseExecutor e (sandbox_New (Image m) opts) m pkg
          (metadata msg ''ecosystem'', metadata msg ''name'', metadata msg ''version''))))"
proof (intro conjI impI)
  assume a: "k < length (DynamicPhases m) \<and>
    (\<forall>j<k. \<exists>r. analysis_Run e j sb (Command m pkg (DynamicPhases m ! j)) = Inr r \<and>
               Status r = StatusCompleted) \<and>
    analysis_Run e k sb (Command m pkg (DynamicPhases m ! k)) = Inr result \<and>
    Status result \<noteq> StatusCompleted"
  then show "\<exists>res. phaseExecutor e sb m pkg labels =
         (map (\<lambda>p. Run sb (Command m pkg p)) (take (Suc k) (DynamicPhases m)),
          Inr (res, Status result, DynamicPhases m ! k))"
    unfolding phaseExecutor_def
    using runPhases_stops [of k "DynamicPhases m" e 0 sb m pkg result labels Map.empty
        StatusCompleted "[]"]
    by simp
next
  assume "\<forall>j<length (DynamicPhases m).
       \<exists>r. analysis_Run e j sb (Command m pkg (DynamicPhases m ! j)) = Inr r \<and>
           Status r = StatusCompleted"
  then show "\<exists>res. phaseExecutor e sb m pkg labels =
         (map (\<lambda>p. Run sb (Command m pkg p)) (DynamicPhases m),
          Inr (res, StatusCompleted,
               if DynamicPhases m = [] then [] else last (DynamicPhases m)))"
    unfolding phaseExecutor_def
    using runPhases_all_completed [of "DynamicPhases m" e 0 sb m pkg labels Map.empty
        StatusCompleted "[]"]
    by auto
next
  assume "metadata msg ''name'' \<noteq> [] \<and> metadata msg ''ecosystem'' \<noteq> [] \<and>
    Manager e (metadata msg ''ecosystem'') = Some m \<and>
    stagePackage e pb (metadata msg ''package_path'') [Tag tag] =
      (evs0, deferred, Inr (lp, opts)) \<and>
    resolvePkg m (metadata msg ''ecosystem'') (metadata msg ''name'')
      (metadata msg ''version'') lp = (evs1, Inr pkg)"
  then show "runs (fst (handleMessage e msg pb b tag)) =
        runs (fst (phaseExecutor e (sandbox_New (Image m) opts) m pkg
          (metadata msg ''ecosystem'', metadata msg ''name'', metadata msg ''version'')))"
    using handleMessage_runs [of msg e m pb tag evs0 deferred lp opts evs1 pkg b]
    by blast
qed

theorem phaseExecutor_stops_at_first_failure_witness:
  "(\<exists>res. phaseExecutor stormy nodeSandbox npm (''left-pad'', ''1.0.0'', [])
             (''npm'', ''left-pad'', ''1.0.0'') =
      ([Run nodeSandbox [''analyze'', ''install'', ''left-pad'', ''1.0.0'', []]],
       Inr (res, StatusErrorTimeout, ''install''))) \<and>
   (\<exists>res. phaseExecutor calm nodeSandbox npm (''left-pad'', ''1.0.0'', [])
             (''npm'', ''left-pad'', ''1.0.0'') =
      ([Run nodeSandbox [''analyze'', ''install'', ''left-pad'', ''1.0.0'', []],
        Run nodeSandbox [''analyze'', ''import'', ''left-pad'', ''1.0.0'', []]],
       Inr (res, StatusCompleted, ''import''))) \<and>
   runs (fst (handleMessage stormy leftPad None ''results'' ''latest'')) =
     [[''analyze'', ''install'', ''left-pad'', ''1.0.0'', []]]"
proof (intro conjI)
  note stops = phaseExecutor_stops_at_first_failure
      [of 0 npm stormy nodeSandbox "(''left-pad'', ''1.0.0'', [])" timedOut
        "(''npm'', ''left-pad'', ''1.0.0'')" leftPad None "''latest''" "[]" "[]" "[]"
        "[Tag ''latest'']" "[]" "''results''"]
  show first: "\<exists>res. phaseExecutor stormy nodeSandbox npm (''left-pad'', ''1.0.0'', [])
             (''npm'', ''left-pad'', ''1.0.0'') =
      ([Run nodeSandbox [''analyze'', ''install'', ''left-pad'', ''1.0.0'', []]],
       Inr (res, StatusErrorTimeout, ''install''))"
    using stops [THEN conjunct1] by (simp add: example_defs)
  show "\<exists>res. phaseExecutor calm nodeSandbox npm (''left-pad'', ''1.0.0'', [])
             (''npm'', ''left-pad'', ''1.0.0'') =
      ([Run nodeSandbox [''analyze'', ''install'', ''left-pad'', ''1.0.0'', []],
        Run nodeSandbox [''analyze'', ''import'', ''left-pad'', ''1.0.0'', []]],
       Inr (res, StatusCompleted, ''import''))"
    using phaseExecutor_stops_at_first_failure
      [of 0 npm calm nodeSandbox "(''left-pad'', ''1.0.0'', [])" timedOut
        "(''npm'', ''left-pad'', ''1.0.0'')", THEN conjunct2, THEN conjunct1]
    by (simp add: example_defs)
  have "runs (fst (handleMessage stormy leftPad None ''results'' ''latest'')) =
      runs (fst (phaseExecutor stormy nodeSandbox npm (''left-pad'', ''1.0.0'', [])
             (''npm'', ''left-pad'', ''1.0.0'')))"
    using stops [THEN conjunct2, THEN conjunct2]
    by (simp add: example_defs metadata_def stagePackage_def resolvePkg_def sandbox_New_def)
  with first show "runs (fst (handleMessage stormy leftPad None ''results'' ''latest'')) =
     [[''analyze'', ''install'', ''left-pad'', ''1.0.0'', []]]"
    by auto
qed

lemma analysePackage_no_phases:
  assumes "DynamicPhases m = []" and "resolvePkg m eco name version lp = (evs1, Inr pkg)"
  shows "analysePackage e m eco name version lp opts b =
     (evs1 @ [SandboxNew (sandbox_New (Image m) opts)]
        @ logFinalStatus StatusCompleted eco name version []
        @ fst (uploadResults e b pkg Map.empty)
        @ (if snd (uploadResults e b pkg Map.empty) = None then [Ack] else [])
        @ [SandboxClean (sandbox_New (Image m) opts)],
      snd (uploadResults e b pkg Map.empty))"
  using assms
  by (simp add: analysePackage_def phaseExecutor_def Let_def split: prod.splits option.splits)

text \<open>C9. With an empty list of phases the executor runs nothing and yields the empty
  map of results, the status Completed and the empty \<^verbatim>\<open>lastPhase\<close>; the log of the final
  status is the one of a completed analysis, with an empty \<open>last_phase\<close>; and the handler
  goes on to the upload of the empty map and the acknowledgement as for any other
  package.\<close>

theorem empty_phase_list:
  "DynamicPhases m = [] \<longrightarrow>
     phaseExecutor e sb m pkg labels = ([], Inr (Map.empty, StatusCompleted, [])) \<and>
     logFinalStatus StatusCompleted eco name version [] =
       [Log LogInfo ''Analysis completed sucessfully''
          [(''ecosystem'', Str eco), (''name'', Str name), (''version'', Str version),
           (''last_phase'', Str [])]] \<and>
     (resolvePkg m eco name version lp = (evs1, Inr pkg) \<longrightarrow>
        analysePackage e m eco name version lp opts b =
          (evs1 @ [SandboxNew (sandbox_New (Image m) opts)]
             @ logFinalStatus StatusCompleted eco name version []
             @ fst (uploadResults e b pkg Map.empty)
             @ (if snd (uploadResults e b pkg Map.empty) = None then [Ack] else [])
             @ [SandboxClean (sandbox_New (Image m) opts)],
           snd (uploadResults e b pkg Map.empty)))"
  using analysePackage_no_phases [of m eco name version lp evs1 pkg e opts b]
  by (simp add: phaseExecutor_def logFinalStatus_def)

theorem empty_phase_list_witness:
  "phaseExecutor idle nodeSandbox npmIdle (''left-pad'', ''1.0.0'', [])
     (''npm'', ''left-pad'', ''1.0.0'') = ([], Inr (Map.empty, StatusCompleted, [])) \<and>
   analysePackage idle npmIdle ''npm'' ''left-pad'' ''1.0.0'' [] [Tag ''latest''] ''results'' =
     ([SandboxNew nodeSandbox,
       Log LogInfo ''Analysis completed sucessfully''
         [(''ecosystem'', Str ''npm''), (''name'', Str ''left-pad''), (''version'', Str ''1.0.0''),
          (''last_phase'', Str [])],
       Save ''results'' (''left-pad'', ''1.0.0'', []) Map.empty, Ack,
       SandboxClean nodeSandbox], None)"
proof -
  have phases: "DynamicPhases npmIdle = []" by (simp add: npmIdle_def npm_def)
  have resolved: "resolvePkg npmIdle ''npm'' ''left-pad'' ''1.0.0'' [] =
      ([], Inr (''left-pad'', ''1.0.0'', []))"
    by (simp add: resolvePkg_def npmIdle_def npm_def)
  have saved: "uploadResults idle ''results'' (''left-pad'', ''1.0.0'', []) Map.empty =
      ([Save ''results'' (''left-pad'', ''1.0.0'', []) Map.empty], None)"
    by (simp add: uploadResults_def idle_def calm_def)
  have sb: "sandbox_New (Image npmIdle) [Tag ''latest''] = nodeSandbox"
    by (simp add: nodeSandbox_def npmIdle_def npm_def)
  note inst = empty_phase_list [of npmIdle idle nodeSandbox "(''left-pad'', ''1.0.0'', [])"
      "(''npm'', ''left-pad'', ''1.0.0'')" "''npm''" "''left-pad''" "''1.0.0''" "[]" "[]"
      "[Tag ''latest'']" "''results''", rule_format, OF phases]
  from inst have executor: "phaseExecutor idle nodeSandbox npmIdle (''left-pad'', ''1.0.0'', [])
     (''npm'', ''left-pad'', ''1.0.0'') = ([], Inr (Map.empty, StatusCompleted, []))"
    by (rule conjunct1)
  from inst have logged: "logFinalStatus StatusCompleted ''npm'' ''left-pad'' ''1.0.0'' [] =
       [Log LogInfo ''Analysis completed sucessfully''
          [(''ecosystem'', Str ''npm''), (''name'', Str ''left-pad''), (''version'', Str ''1.0.0''),
           (''last_phase'', Str [])]]"
    by blast
  from inst resolved have "analysePackage idle npmIdle ''npm'' ''left-pad'' ''1.0.0'' []
      [Tag ''latest''] ''results'' =
      ([] @ [SandboxNew (sandbox_New (Image npmIdle) [Tag ''latest''])]
         @ logFinalStatus StatusCompleted ''npm'' ''left-pad'' ''1.0.0'' []
         @ fst (uploadResults idle ''results'' (''left-pad'', ''1.0.0'', []) Map.empty)
         @ (if snd (uploadResults idle ''results'' (''left-pad'', ''1.0.0'', []) Map.empty) = None
            then [Ack] else [])
         @ [SandboxClean (sandbox_New (Image npmIdle) [Tag ''latest''])],
       snd (uploadResults idle ''results'' (''left-pad'', ''1.0.0'', []) Map.empty))"
    by blast
  then show ?thesis by (simp add: executor logged saved sb)
qed

subsection \<open>The map of results\<close>

lemma runPhases_results:
  "runPhases e sb m pkg labels i phases (res0, fs0, lp0) = (evs, Inr (res, fs, lp)) \<Longrightarrow>
   \<exists>n\<le>length phases.
     evs = map (\<lambda>p. Run sb (Command m pkg p)) (take n phases) \<and>
     dom res = dom res0 \<union> set (take n phases) \<and>
     (\<forall>p r. res p = Some r \<longrightarrow>
        res0 p = Some r \<or>
        (\<exists>j<n. phases ! j = p \<and> analysis_Run e (i + j) sb (Command m pkg p) = Inr r))"
proof (induction phases arbitrary: i res0 fs0 lp0 evs)
  case Nil
  then show ?case by auto
next
  case (Cons phase rest)
  from Cons.prems obtain r where r: "analysis_Run e i sb (Command m pkg phase) = Inr r"
    by (cases "analysis_Run e i sb (Command m pkg phase)") auto
  show ?case
  proof (cases "Status r = StatusCompleted")
    case False
    with Cons.prems r have "evs = [Run sb (Command m pkg phase)]" "res = res0(phase \<mapsto> r)"
      by auto
    then have "1 \<le> length (phase # rest) \<and>
      evs = map (\<lambda>p. Run sb (Command m pkg p)) (take 1 (phase # rest)) \<and>
      dom res = dom res0 \<union> set (take 1 (phase # rest)) \<and>
      (\<forall>p r'. res p = Some r' \<longrightarrow>
        res0 p = Some r' \<or>
        (\<exists>j<1. (phase # rest) ! j = p \<and> analysis_Run e (i + j) sb (Command m pkg p) = Inr r'))"
      using r by auto
    then show ?thesis by blast
  next
    case True
    with Cons.prems r obtain evs' where
      rec: "runPhases e sb m pkg labels (Suc i) rest (res0(phase \<mapsto> r), StatusCompleted, phase) =
              (evs', Inr (res, fs, lp))"
      and evs: "evs = Run sb (Command m pkg phase) # evs'"
      by (auto split: prod.splits)
    from Cons.IH [OF rec] obtain n where n: "n \<le> length rest"
      "evs' = map (\<lambda>p. Run sb (Command m pkg p)) (take n rest)"
      "dom res = dom (res0(phase \<mapsto> r)) \<union> set (take n rest)"
      "\<forall>p r'. res p = Some r' \<longrightarrow>
         (res0(phase \<mapsto> r)) p = Some r' \<or>
         (\<exists>j<n. rest ! j = p \<and> analysis_Run e (Suc i + j) sb (Command m pkg p) = Inr r')"
      by blast
    have "\<forall>p r'. res p = Some r' \<longrightarrow>
        res0 p = Some r' \<or>
        (\<exists>j<Suc n. (phase # rest) ! j = p \<and> analysis_Run e (i + j) sb (Command m pkg p) = Inr r')"
    proof (intro allI impI)
      fix p r'
      assume "res p = Some r'"
      with n(4) consider "(res0(phase \<mapsto> r)) p = Some r'"
        | j where "j < n" "rest ! j = p" "analysis_Run e (Suc i + j) sb (Command m pkg p) = Inr r'"
        by blast
      then show "res0 p = Some r' \<or>
        (\<exists>j<Suc n. (phase # rest) ! j = p \<and> analysis_Run e (i + j) sb (Command m pkg p) = Inr r')"
      proof cases
        case 1
        show ?thesis
        proof (cases "p = phase")
          case True
          with 1 r have "(phase # rest) ! 0 = p \<and>
            analysis_Run e (i + 0) sb (Command m pkg p) = Inr r'" by simp
          then show ?thesis by blast
        next
          case False
          with 1 show ?thesis by simp
        qed
      next
        case 2
        then have "Suc j < Suc n \<and> (phase # rest) ! Suc j = p \<and>
          analysis_Run e (i + Suc j) sb (Command m pkg p) = Inr r'" by simp
        then show ?thesis by blast
      qed
    qed
    moreover have "Suc n \<le> length (phase # rest)" using n(1) by simp
    moreover have "evs = map (\<lambda>p. Run sb (Command m pkg p)) (take (Suc n) (phase # rest))"
      using evs n(2) by simp
    moreover have "dom res = dom res0 \<union> set (take (Suc n) (phase # rest))"
      using n(3) by auto
    ultimately show ?thesis by blast
  qed
qed

lemma phaseExecutor_results:
  assumes "phaseExecutor e sb m pkg labels = (evs, Inr (res, fs, lp))"
  shows "\<exists>n\<le>length (DynamicPhases m).
     evs = map (\<lambda>p. Run sb (Command m pkg p)) (take n (DynamicPhases m)) \<and>
     dom res = set (take n (DynamicPhases m)) \<and>
     (distinct (DynamicPhases m) \<longrightarrow> card (dom res) = n) \<and>
     (\<forall>p r. res p = Some r \<longrightarrow>
        (\<exists>j<n. DynamicPhases m ! j = p \<and> analysis_Run e j sb (Command m pkg p) = Inr r))"
proof -
  from runPhases_results [OF assms [unfolded phaseExecutor_def]]
  obtain n where n: "n \<le> length (DynamicPhases m)"
    "evs = map (\<lambda>p. Run sb (Command m pkg p)) (take n (DynamicPhases m))"
    "dom res = set (take n (DynamicPhases m))"
    "\<forall>p r. res p = Some r \<longrightarrow>
        (\<exists>j<n. DynamicPhases m ! j = p \<and> analysis_Run e j sb (Command m pkg p) = Inr r)"
    by auto
  have "distinct (DynamicPhases m) \<longrightarrow> card (dom res) = n"
  proof
    assume "distinct (DynamicPhases m)"
    then have "distinct (take n (DynamicPhases m))" by simp
    then have "card (set (take n (DynamicPhases m))) = length (take n (DynamicPhases m))"
      by (rule distinct_card)
    with n(1,3) show "card (dom res) = n" by simp
  qed
  with n show ?thesis by blast
qed

lemma handleMessage_executed_uploads:
  assumes "metadata msg ''name'' \<noteq> []" and "metadata msg ''ecosystem'' \<noteq> []"
    and "Manager e (metadata msg ''ecosystem'') = Some m"
    and "stagePackage e pb (metadata msg ''package_path'') [Tag tag] =
           (evs, deferred, Inr (lp, opts))"
    and "resolvePkg m (metadata msg ''ecosystem'') (metadata msg ''name'')
           (metadata msg ''version'') lp = (evs1, Inr pkg)"
    and "phaseExecutor e (sandbox_New (Image m) opts) m pkg
           (metadata msg ''ecosystem'', metadata msg ''name'', metadata msg ''version'') =
           (evs2, Inr (res, finalStatus, lastPhase))"
  shows "uploads (fst (handleMessage e msg pb b tag)) =
           (if effectiveBucket msg b \<noteq> [] then [(effectiveBucket msg b, pkg, res)] else [])"
  using stagePackage_quiet [OF assms(4)] resolvePkg_quiet [OF assms(5)]
    phaseExecutor_quiet [OF assms(6)]
  by (simp add: handleMessage_executed [OF assms] gotRequest_def logFinalStatus_quiet
      uploadResults_events)

text \<open>C2, as stated: the results are an ordered mapping with one entry for each phase
  attempted, stored in the order of execution. They are not: \<^verbatim>\<open>results\<close> is a Go map,
  which keeps no order and one entry for a key. Two runs that execute the same two phases
  in opposite orders hand the very same value to \<^verbatim>\<open>Save\<close>; and were a phase listed twice,
  its two runs would leave one entry.\<close>

theorem results_forget_execution_order:
  "uploads (fst (handleMessage calm leftPad None ''results'' ''latest'')) =
   uploads (fst (handleMessage calmSwapped leftPad None ''results'' ''latest'')) \<and>
   length (uploads (fst (handleMessage calm leftPad None ''results'' ''latest''))) = 1 \<and>
   runs (fst (handleMessage calm leftPad None ''results'' ''latest'')) =
     [[''analyze'', ''install'', ''left-pad'', ''1.0.0'', []],
      [''analyze'', ''import'', ''left-pad'', ''1.0.0'', []]] \<and>
   runs (fst (handleMessage calmSwapped leftPad None ''results'' ''latest'')) =
     [[''analyze'', ''import'', ''left-pad'', ''1.0.0'', []],
      [''analyze'', ''install'', ''left-pad'', ''1.0.0'', []]] \<and>
   runs (fst (handleMessage calmTwice leftPad None ''results'' ''latest'')) =
     [[''analyze'', ''install'', ''left-pad'', ''1.0.0'', []],
      [''analyze'', ''install'', ''left-pad'', ''1.0.0'', []]] \<and>
   uploads (fst (handleMessage calmTwice leftPad None ''results'' ''latest'')) =
     [(''results'', (''left-pad'', ''1.0.0'', []), [''install'' \<mapsto> completed])]"
proof -
  have twist: "[''install'' \<mapsto> completed, ''import'' \<mapsto> completed] =
               [''import'' \<mapsto> completed, ''install'' \<mapsto> completed]"
    by (rule fun_upd_twist) simp
  show ?thesis
    by (simp add: handler_defs example_defs twist [unfolded completed_def])
qed

text \<open>C2, amended: the results are a map from phase names to results, without order.
  When the executor ends without an error, it has run the commands of the first \<open>n\<close>
  phases of the list, the keys of the map are these phases, every entry is a result that
  a run of that phase returned, and the map has \<open>n\<close> entries when the names of the phases
  are distinct. A handler run that gets to the upload hands exactly this map to \<^verbatim>\<open>Save\<close>,
  for the bucket of the run, when that bucket is not empty.\<close>

theorem resultSet_is_a_map:
  "(phaseExecutor e sb m pkg labels = (evs, Inr (res, finalStatus, lastPhase)) \<longrightarrow>
      (\<exists>n\<le>length (DynamicPhases m).
         evs = map (\<lambda>p. Run sb (Command m pkg p)) (take n (DynamicPhases m)) \<and>
         dom res = set (take n (DynamicPhases m)) \<and>
         (distinct (DynamicPhases m) \<longrightarrow> card (dom res) = n) \<and>
         (\<forall>p r. res p = Some r \<longrightarrow>
            (\<exists>j<n. DynamicPhases m ! j = p \<and>
                   analysis_Run e j sb (Command m pkg p) = Inr r)))) \<and>
   (metadata msg ''name'' \<noteq> [] \<and> metadata msg ''ecosystem'' \<noteq> [] \<and>
    Manager e (metadata msg ''ecosystem'') = Some m \<and>
    stagePackage e pb (metadata msg ''package_path'') [Tag tag] =
      (evs0, deferred, Inr (lp, opts)) \<and>
    resolvePkg m (metadata msg ''ecosystem'') (metadata msg ''name'')
      (metadata msg ''version'') lp = (evs1, Inr pkg) \<and>
    phaseExecutor e (sandbox_New (Image m) opts) m pkg
      (metadata msg ''ecosystem'', metadata msg ''name'', metadata msg ''version'') =
      (evs2, Inr (res, finalStatus, lastPhase)) \<longrightarrow>
      uploads (fst (handleMessage e msg pb b tag)) =
        (if effectiveBucket msg b \<noteq> [] then [(effectiveBucket msg b, pkg, res)] else []))"
  using phaseExecutor_results [of e sb m pkg labels evs res finalStatus lastPhase]
    handleMessage_executed_uploads [of msg e m pb tag evs0 deferred lp opts evs1 pkg evs2 res
      finalStatus lastPhase b]
  by blast

theorem resultSet_is_a_map_witness:
  "(\<exists>res. uploads (fst (handleMessage calm leftPad None ''results'' ''latest'')) =
            [(''results'', (''left-pad'', ''1.0.0'', []), res)] \<and>
          dom res = {''install'', ''import''} \<and> card (dom res) = 2)"
proof -
  let ?sb = "sandbox_New (Image npm) [Tag ''latest'']"
  let ?pkg = "(''left-pad'', ''1.0.0'', [])"
  let ?labels = "(''npm'', ''left-pad'', ''1.0.0'')"
  obtain evs2 res fs lp where
    ex: "phaseExecutor calm ?sb npm ?pkg ?labels = (evs2, Inr (res, fs, lp))"
    by (simp add: handler_defs example_defs)
  note inst = resultSet_is_a_map [of calm ?sb npm ?pkg ?labels evs2 res fs lp leftPad None
      "''latest''" "[]" "[]" "[]" "[Tag ''latest'']" "[]" evs2 "''results''"]
  from inst [THEN conjunct1] ex obtain n where
    n: "n \<le> length (DynamicPhases npm)"
      "evs2 = map (\<lambda>p. Run ?sb (Command npm ?pkg p)) (take n (DynamicPhases npm))"
      "dom res = set (take n (DynamicPhases npm))"
      "distinct (DynamicPhases npm) \<longrightarrow> card (dom res) = n"
    by blast
  have "length evs2 = 2" using ex by (auto simp: handler_defs example_defs)
  with n(1,2) have "n = 2" by (simp add: npm_def)
  with n(3,4) have dom: "dom res = {''install'', ''import''}" "card (dom res) = 2"
    by (simp_all add: npm_def)
  have "uploads (fst (handleMessage calm leftPad None ''results'' ''latest'')) =
      [(''results'', ?pkg, res)]"
    using inst [THEN conjunct2] ex
    by (simp add: example_defs metadata_def stagePackage_def resolvePkg_def effectiveBucket_def)
  with dom show ?thesis by blast
qed

section \<open>Acknowledgement\<close>

text \<open>C4. A run of \<^verbatim>\<open>handleMessage\<close> acknowledges the message once when it returns nil
  and not at all when it returns an error, whatever the message and whatever the outcomes
  of the external calls.\<close>

theorem handleMessage_acks:
  "acks (fst (handleMessage e msg pb b tag)) =
     (if snd (handleMessage e msg pb b tag) = None then 1 else 0)"
proof (cases e msg pb b tag rule: handleMessage_cases)
  case no_name
  then show ?thesis by simp
next
  case no_ecosystem
  then show ?thesis by simp
next
  case unsupported
  then show ?thesis by simp
next
  case (staging_failed m evs deferred err)
  with stagePackage_acks [OF staging_failed(4)] show ?thesis by (simp add: gotRequest_def)
next
  case (staged m evs deferred localPkgPath sbOpts evs' r)
  with stagePackage_acks [OF staged(4)]
    analysePackage_acks [of e m "metadata msg ''ecosystem''" "metadata msg ''name''"
      "metadata msg ''version''" localPkgPath sbOpts "effectiveBucket msg b"]
  show ?thesis by (simp add: gotRequest_def)
qed

theorem handleMessage_acks_witness:
  "snd (handleMessage calm leftPad None ''results'' ''latest'') = None \<and>
   acks (fst (handleMessage calm leftPad None ''results'' ''latest'')) = 1 \<and>
   snd (handleMessage (calm\<lparr>resultstore_Save := \<lambda>bucket pkg res. Some ''denied''\<rparr>) leftPad None
          ''results'' ''latest'') = Some ''failed to upload to blobstore = denied'' \<and>
   acks (fst (handleMessage (calm\<lparr>resultstore_Save := \<lambda>bucket pkg res. Some ''denied''\<rparr>) leftPad
          None ''results'' ''latest'')) = 0"
proof -
  have ok: "snd (handleMessage calm leftPad None ''results'' ''latest'') = None"
    by (simp add: handler_defs example_defs)
  have failed:
    "snd (handleMessage (calm\<lparr>resultstore_Save := \<lambda>bucket pkg res. Some ''denied''\<rparr>) leftPad None
          ''results'' ''latest'') = Some ''failed to upload to blobstore = denied''"
    by (simp add: handler_defs example_defs)
  show ?thesis
    using handleMessage_acks [of calm leftPad None "''results''" "''latest''"]
      handleMessage_acks [of "calm\<lparr>resultstore_Save := \<lambda>bucket pkg res. Some ''denied''\<rparr>"
        leftPad None "''results''" "''latest''"]
    by (simp only: ok failed) simp
qed

text \<open>C6. A message with an empty name, an empty ecosystem or an ecosystem without a
  package manager is dropped: the handler logs a warning, acknowledges the message and
  returns nil, and does nothing else (no staging, no run, no upload).\<close>

theorem handleMessage_drops:
  assumes "metadata msg ''name'' = [] \<or> metadata msg ''ecosystem'' = [] \<or>
           Manager e (metadata msg ''ecosystem'') = None"
  shows "\<exists>text labels. handleMessage e msg pb b tag = ([Log LogWarn text labels, Ack], None)"
  using assms by (cases e msg pb b tag rule: handleMessage_cases) auto

theorem handleMessage_drops_witness:
  "(\<exists>text labels. handleMessage calm nameless None ''results'' ''latest'' =
      ([Log LogWarn text labels, Ack], None)) \<and>
   (\<exists>text labels. handleMessage calm unnamedEcosystem None ''results'' ''latest'' =
      ([Log LogWarn text labels, Ack], None)) \<and>
   (\<exists>text labels. handleMessage calm cobolPkg None ''results'' ''latest'' =
      ([Log LogWarn text labels, Ack], None))"
proof (intro conjI)
  have "metadata nameless ''name'' = []" by (simp add: metadata_def nameless_def)
  then show "\<exists>text labels. handleMessage calm nameless None ''results'' ''latest'' =
      ([Log LogWarn text labels, Ack], None)"
    using handleMessage_drops [of nameless calm None "''results''" "''latest''"] by blast
  have "metadata unnamedEcosystem ''ecosystem'' = []"
    by (simp add: metadata_def unnamedEcosystem_def)
  then show "\<exists>text labels. handleMessage calm unnamedEcosystem None ''results'' ''latest'' =
      ([Log LogWarn text labels, Ack], None)"
    using handleMessage_drops [of unnamedEcosystem calm None "''results''" "''latest''"] by blast
  have "Manager calm (metadata cobolPkg ''ecosystem'') = None"
    by (simp add: metadata_def cobolPkg_def calm_def)
  then show "\<exists>text labels. handleMessage calm cobolPkg None ''results'' ''latest'' =
      ([Log LogWarn text labels, Ack], None)"
    using handleMessage_drops [of cobolPkg calm None "''results''" "''latest''"] by blast
qed

text \<open>C8, as stated: a message with a \<^verbatim>\<open>package_path\<close>, when there is no packages bucket,
  makes the handler return an error and is not acknowledged. A message that also lacks
  its name is dropped before the bucket is looked at: it is acknowledged and the handler
  returns nil.\<close>

theorem nameless_package_path_is_dropped:
  "metadata nameless ''package_path'' \<noteq> [] \<and>
   handleMessage calm nameless None ''results'' ''latest'' =
     ([Log LogWarn ''name is empty'' [], Ack], None)"
  by (simp add: handleMessage_def metadata_def nameless_def)

text \<open>C8, amended: a message that is not dropped (its name and ecosystem are not empty and
  the ecosystem has a package manager) and carries a \<^verbatim>\<open>package_path\<close>, when the packages
  bucket is nil, makes the handler return the error "packages bucket not set" after the
  log of the request alone: nothing is staged, run or uploaded, and the message is not
  acknowledged.\<close>

theorem handleMessage_no_packages_bucket:
  assumes "metadata msg ''name'' \<noteq> []" and "metadata msg ''ecosystem'' \<noteq> []"
    and "Manager e (metadata msg ''ecosystem'') = Some m"
    and "metadata msg ''package_path'' \<noteq> []"
  shows "handleMessage e msg None b tag = ([gotRequest msg], Some ''packages bucket not set'')"
  using assms
  by (cases e msg "None :: string option" b tag rule: handleMessage_cases)
    (auto simp: stagePackage_def)

theorem handleMessage_no_packages_bucket_witness:
  "handleMessage calm stagedPkg None ''results'' ''latest'' =
     ([gotRequest stagedPkg], Some ''packages bucket not set'')"
  using handleMessage_no_packages_bucket [of stagedPkg calm npm "''results''" "''latest''"]
  by (simp add: metadata_def stagedPkg_def calm_def)

section \<open>The resolution of the package\<close>

lemma resolvePkg_lookups:
  "lookups (fst (resolvePkg m eco name version lp)) = (if lp = [] \<and> version = [] then [name] else [])"
  by (simp add: resolvePkg_def split: sum.splits)

lemma uploadResults_lookups: "lookups (fst (uploadResults e b pkg res)) = []"
  by (simp add: uploadResults_events)

lemma analysePackage_lookups:
  "lookups (fst (analysePackage e m eco name version lp opts b)) =
     (if lp = [] \<and> version = [] then [name] else [])"
proof (cases e m eco name version lp opts b rule: analysePackage_cases)
  case (unresolved evs1 err)
  with resolvePkg_lookups [of m eco name version lp] show ?thesis by simp
next
  case (run_failed evs1 pkg evs2 err)
  with resolvePkg_lookups [of m eco name version lp] phaseExecutor_quiet [OF run_failed(2)]
  show ?thesis by simp
next
  case (upload_failed evs1 pkg evs2 res finalStatus lastPhase evs4 err)
  have "evs4 = fst (uploadResults e b pkg res)" using upload_failed(3) by simp
  with upload_failed resolvePkg_lookups [of m eco name version lp]
    phaseExecutor_quiet [OF upload_failed(2)]
  show ?thesis by (simp add: logFinalStatus_quiet uploadResults_lookups)
next
  case (acknowledged evs1 pkg evs2 res finalStatus lastPhase evs4)
  have "evs4 = fst (uploadResults e b pkg res)" using acknowledged(3) by simp
  with acknowledged resolvePkg_lookups [of m eco name version lp]
    phaseExecutor_quiet [OF acknowledged(2)]
  show ?thesis by (simp add: logFinalStatus_quiet uploadResults_lookups)
qed

lemma handleMessage_lookups:
  "lookups (fst (handleMessage e msg pb b tag)) =
     (if metadata msg ''name'' \<noteq> [] \<and> metadata msg ''ecosystem'' \<noteq> [] \<and>
         Manager e (metadata msg ''ecosystem'') \<noteq> None \<and>
         metadata msg ''package_path'' = [] \<and> metadata msg ''version'' = []
      then [metadata msg ''name''] else [])"
proof (cases e msg pb b tag rule: handleMessage_cases)
  case no_name
  then show ?thesis by simp
next
  case no_ecosystem
  then show ?thesis by simp
next
  case unsupported
  then show ?thesis by simp
next
  case (staging_failed m evs deferred err)
  with stagePackage_quiet [OF staging_failed(4)] stagePackage_failed [OF staging_failed(4)]
  show ?thesis by (simp add: gotRequest_def)
next
  case (staged m evs deferred localPkgPath sbOpts evs' r)
  have "evs' = fst (analysePackage e m (metadata msg ''ecosystem'')
      (metadata msg ''name'') (metadata msg ''version'') localPkgPath sbOpts
      (effectiveBucket msg b))"
    using staged(5) by simp
  with staged(1,2,3,6) stagePackage_quiet [OF staged(4)] stagePackage_local [OF staged(4)]
  show ?thesis by (auto simp: gotRequest_def analysePackage_lookups)
qed

lemma handleMessage_latest_failed:
  assumes "metadata msg ''name'' \<noteq> []" and "metadata msg ''ecosystem'' \<noteq> []"
    and "Manager e (metadata msg ''ecosystem'') = Some m"
    and "metadata msg ''package_path'' = []" and "metadata msg ''version'' = []"
    and "Latest m (metadata msg ''name'') = Inl err"
  shows "handleMessage e msg pb b tag =
     ([gotRequest msg, CallLatest (metadata msg ''name''),
       Log LogError ''Failed to get latest version''
         [(''ecosystem'', Str (metadata msg ''ecosystem'')),
          (''name'', Str (metadata msg ''name'')), (''error'', Str err)]],
      Some err)"
  using assms
  by (simp add: handleMessage_def stagePackage_def analysePackage_def resolvePkg_def Let_def)

text \<open>C7. The package is the local one when there is a staged local path (which there is
  exactly when a \<^verbatim>\<open>package_path\<close> was given and staged), else the one of the version
  when a version is given, else the latest, which is looked up; the latest version is
  looked up in no other case. When that lookup fails the handler returns its error, and
  neither acknowledges nor runs nor uploads anything.\<close>

theorem resolution_precedence:
  "(lp \<noteq> [] \<longrightarrow> resolvePkg m eco name version lp = ([], Inr (Local m name version lp))) \<and>
   (lp = [] \<and> version \<noteq> [] \<longrightarrow>
      resolvePkg m eco name version lp = ([], Inr (Package m name version))) \<and>
   (lp = [] \<and> version = [] \<longrightarrow>
      lookups (fst (resolvePkg m eco name version lp)) = [name] \<and>
      snd (resolvePkg m eco name version lp) = Latest m name) \<and>
   (stagePackage e pb pkgPath opts = (evs, deferred, Inr (lp, opts')) \<longrightarrow>
      (lp \<noteq> []) = (pkgPath \<noteq> [])) \<and>
   lookups (fst (handleMessage e msg pb b tag)) =
     (if metadata msg ''name'' \<noteq> [] \<and> metadata msg ''ecosystem'' \<noteq> [] \<and>
         Manager e (metadata msg ''ecosystem'') \<noteq> None \<and>
         metadata msg ''package_path'' = [] \<and> metadata msg ''version'' = []
      then [metadata msg ''name''] else []) \<and>
   (metadata msg ''name'' \<noteq> [] \<and> metadata msg ''ecosystem'' \<noteq> [] \<and>
    Manager e (metadata msg ''ecosystem'') = Some m \<and>
    metadata msg ''package_path'' = [] \<and> metadata msg ''version'' = [] \<and>
    Latest m (metadata msg ''name'') = Inl err \<longrightarrow>
      snd (handleMessage e msg pb b tag) = Some err \<and>
      acks (fst (handleMessage e msg pb b tag)) = 0 \<and>
      runs (fst (handleMessage e msg pb b tag)) = [] \<and>
      uploads (fst (handleMessage e msg pb b tag)) = [])"
proof (intro conjI impI)
  show "lp \<noteq> [] \<Longrightarrow> resolvePkg m eco name version lp = ([], Inr (Local m name version lp))"
    by (simp add: resolvePkg_def)
  show "lp = [] \<and> version \<noteq> [] \<Longrightarrow>
      resolvePkg m eco name version lp = ([], Inr (Package m name version))"
    by (simp add: resolvePkg_def)
  show "lp = [] \<and> version = [] \<Longrightarrow> lookups (fst (resolvePkg m eco name version lp)) = [name]"
    by (simp add: resolvePkg_lookups)
  show "lp = [] \<and> version = [] \<Longrightarrow> snd (resolvePkg m eco name version lp) = Latest m name"
    by (simp add: resolvePkg_def split: sum.splits)
  show "stagePackage e pb pkgPath opts = (evs, deferred, Inr (lp, opts')) \<Longrightarrow>
      (lp \<noteq> []) = (pkgPath \<noteq> [])"
    by (rule stagePackage_local)
  show "lookups (fst (handleMessage e msg pb b tag)) =
     (if metadata msg ''name'' \<noteq> [] \<and> metadata msg ''ecosystem'' \<noteq> [] \<and>
         Manager e (metadata msg ''ecosystem'') \<noteq> None \<and>
         metadata msg ''package_path'' = [] \<and> metadata msg ''version'' = []
      then [metadata msg ''name''] else [])"
    by (rule handleMessage_lookups)
next
  assume a: "metadata msg ''name'' \<noteq> [] \<and> metadata msg ''ecosystem'' \<noteq> [] \<and>
    Manager e (metadata msg ''ecosystem'') = Some m \<and>
    metadata msg ''package_path'' = [] \<and> metadata msg ''version'' = [] \<and>
    Latest m (metadata msg ''name'') = Inl err"
  then have h: "handleMessage e msg pb b tag =
     ([gotRequest msg, CallLatest (metadata msg ''name''),
       Log LogError ''Failed to get latest version''
         [(''ecosystem'', Str (metadata msg ''ecosystem'')),
          (''name'', Str (metadata msg ''name'')), (''error'', Str err)]],
      Some err)"
    using handleMessage_latest_failed by blast
  show "snd (handleMessage e msg pb b tag) = Some err" by (simp add: h)
  show "acks (fst (handleMessage e msg pb b tag)) = 0" by (simp add: h gotRequest_def)
  show "runs (fst (handleMessage e msg pb b tag)) = []" by (simp add: h gotRequest_def)
  show "uploads (fst (handleMessage e msg pb b tag)) = []" by (simp add: h gotRequest_def)
qed

theorem resolution_precedence_witness:
  "resolvePkg npm ''npm'' ''left-pad'' ''1.0.0'' ''/local/left-pad.tgz'' =
     ([], Inr (''left-pad'', ''1.0.0'', ''/local/left-pad.tgz'')) \<and>
   resolvePkg npm ''npm'' ''left-pad'' ''1.0.0'' [] = ([], Inr (''left-pad'', ''1.0.0'', [])) \<and>
   lookups (fst (resolvePkg npm ''npm'' ''left-pad'' [] [])) = [''left-pad''] \<and>
   snd (resolvePkg npm ''npm'' ''left-pad'' [] []) = Inr (''left-pad'', ''2.0.0'', []) \<and>
   lookups (fst (handleMessage calm leftPad None ''results'' ''latest'')) = [] \<and>
   lookups (fst (handleMessage offline evilPkg None ''results'' ''latest'')) = [''evil-pkg''] \<and>
   snd (handleMessage offline evilPkg None ''results'' ''latest'') = Some ''registry unreachable'' \<and>
   acks (fst (handleMessage offline evilPkg None ''results'' ''latest'')) = 0"
proof -
  note a = resolution_precedence [of "''/local/left-pad.tgz''" npm "''npm''" "''left-pad''"
      "''1.0.0''" calm None "[]" "[]" "[]" "[]" "[]" leftPad "''results''" "''latest''" "[]"]
  note b = resolution_precedence [of "[]" npm "''npm''" "''left-pad''"
      "''1.0.0''" calm None "[]" "[]" "[]" "[]" "[]" leftPad "''results''" "''latest''" "[]"]
  note c = resolution_precedence [of "[]" npmOffline "''npm''" "''left-pad''"
      "[]" offline None "[]" "[]" "[]" "[]" "[]" evilPkg "''results''" "''latest''"
      "''registry unreachable''"]
  note d = resolution_precedence [of "[]" npm "''npm''" "''left-pad''"
      "[]" offline None "[]" "[]" "[]" "[]" "[]" evilPkg "''results''" "''latest''"
      "''registry unreachable''"]
  show ?thesis
    using a b c d
    by (simp add: example_defs metadata_def)
qed

section \<open>The upload and the results bucket\<close>

lemma analysePackage_uploads:
  "uploads (fst (analysePackage e m eco name version lp opts b)) = [] \<or>
   (b \<noteq> [] \<and> (\<exists>pkg res. uploads (fst (analysePackage e m eco name version lp opts b)) =
       [(b, pkg, res)]))"
proof (cases e m eco name version lp opts b rule: analysePackage_cases)
  case (unresolved evs1 err)
  with resolvePkg_quiet [OF unresolved(1)] show ?thesis by simp
next
  case (run_failed evs1 pkg evs2 err)
  with resolvePkg_quiet [OF run_failed(1)] phaseExecutor_quiet [OF run_failed(2)]
  show ?thesis by simp
next
  case (upload_failed evs1 pkg evs2 res finalStatus lastPhase evs4 err)
  have "evs4 = fst (uploadResults e b pkg res)" using upload_failed(3) by simp
  with upload_failed resolvePkg_quiet [OF upload_failed(1)]
    phaseExecutor_quiet [OF upload_failed(2)]
  show ?thesis by (simp add: logFinalStatus_quiet uploadResults_events)
next
  case (acknowledged evs1 pkg evs2 res finalStatus lastPhase evs4)
  have "evs4 = fst (uploadResults e b pkg res)" using acknowledged(3) by simp
  with acknowledged resolvePkg_quiet [OF acknowledged(1)]
    phaseExecutor_quiet [OF acknowledged(2)]
  show ?thesis by (simp add: logFinalStatus_quiet uploadResults_events)
qed

lemma handleMessage_uploads:
  "uploads (fst (handleMessage e msg pb b tag)) = [] \<or>
   (effectiveBucket msg b \<noteq> [] \<and>
    (\<exists>pkg res. uploads (fst (handleMessage e msg pb b tag)) = [(effectiveBucket msg b, pkg, res)]))"
proof (cases e msg pb b tag rule: handleMessage_cases)
  case no_name
  then show ?thesis by simp
next
  case no_ecosystem
  then show ?thesis by simp
next
  case unsupported
  then show ?thesis by simp
next
  case (staging_failed m evs deferred err)
  with stagePackage_quiet [OF staging_failed(4)] show ?thesis by (simp add: gotRequest_def)
next
  case (staged m evs deferred localPkgPath sbOpts evs' r)
  have "uploads (fst (handleMessage e msg pb b tag)) = uploads evs'"
    using staged(6) stagePackage_quiet [OF staged(4)] by (simp add: gotRequest_def)
  moreover have "evs' = fst (analysePackage e m (metadata msg ''ecosystem'')
      (metadata msg ''name'') (metadata msg ''version'') localPkgPath sbOpts
      (effectiveBucket msg b))"
    using staged(5) by simp
  ultimately show ?thesis
    using analysePackage_uploads [of e m "metadata msg ''ecosystem''" "metadata msg ''name''"
        "metadata msg ''version''" localPkgPath sbOpts "effectiveBucket msg b"]
    by simp
qed

lemma receiveLoop_handled:
  "receiveLoop ds err pb b tag = Some (evs, r) \<Longrightarrow>
     handled evs = map (\<lambda>d. (b, uploads (fst (handleMessage (fst d) (snd d) pb b tag)))) ds"
proof (induction ds arbitrary: evs r)
  case Nil
  then show ?case by (auto split: option.splits)
next
  case (Cons d ds)
  obtain e msg where d: "d = (e, msg)" by (cases d) auto
  obtain hevs herr where h: "handleMessage e msg pb b tag = (hevs, herr)" by (metis surj_pair)
  from Cons.prems d h obtain evs' where
    rest: "receiveLoop ds err pb b tag = Some (evs', r)" and
    evs: "evs = [Receive, Handle pb b tag hevs]
            @ (case herr of None \<Rightarrow> []
               | Some x \<Rightarrow> [LoopLog LogError ''Failed to process message'' [(''error'', Str x)]])
            @ evs'"
    by (auto split: option.splits)
  from Cons.IH [OF rest] evs d h show ?case by (cases herr) simp_all
qed

lemma messageLoop_handled:
  assumes "messageLoop sub url packages b tag = Some (evs, r)"
  shows "handled evs =
           (if pubsub_OpenSubscription sub = None \<and> (packages = [] \<or> blob_OpenBucket sub = None)
            then map (\<lambda>d. (b, uploads (fst (handleMessage (fst d) (snd d)
                        (if packages \<noteq> [] then Some packages else None) b tag))))
                   (deliveries sub)
            else [])"
  using assms unfolding messageLoop_def
  by (auto simp: handled_append split: option.splits if_splits dest!: receiveLoop_handled)

lemma receiveLoop_returns:
  "\<exists>evs. receiveLoop ds (Some x) pb b tag = Some (evs, Some (''error receiving message: '' @ x))"
proof (induction ds)
  case Nil
  show ?case by simp
next
  case (Cons d ds)
  then obtain evs where
    "receiveLoop ds (Some x) pb b tag = Some (evs, Some (''error receiving message: '' @ x))"
    by blast
  then show ?case by (cases d) (simp split: prod.splits)
qed

lemma messageLoop_returns:
  assumes "receiveError sub = Some x"
  shows "messageLoop sub url packages b tag \<noteq> None"
proof -
  obtain evs evs' where
    "receiveLoop (deliveries sub) (Some x) (Some packages) b tag =
       Some (evs, Some (''error receiving message: '' @ x))"
    "receiveLoop (deliveries sub) (Some x) None b tag =
       Some (evs', Some (''error receiving message: '' @ x))"
    using receiveLoop_returns by meson
  with assms show ?thesis
    by (simp add: messageLoop_def split: option.splits)
qed

text \<open>C10, as stated: an upload is attempted if and only if the results bucket of the run
  (the override, else the default) is not empty. A run that ends before the upload
  attempts none, whatever the bucket: here the lookup of the latest version fails.\<close>

theorem no_upload_after_failed_lookup:
  "effectiveBucket evilPkg ''results'' \<noteq> [] \<and>
   uploads (fst (handleMessage offline evilPkg None ''results'' ''latest'')) = []"
  by (simp add: handler_defs example_defs)

text \<open>C10, amended: a run attempts at most one upload, to the results bucket of the run
  (the override of the message when it has one, else the default), and none when that
  bucket is empty; a run that gets to the upload (the message is not dropped, the staging
  and the resolution succeed and every phase is run) attempts an upload if and only if
  that bucket is not empty. The override stays with its message: \<^verbatim>\<open>messageLoop\<close> passes
  its own results bucket to the handler for every message it receives.\<close>

theorem override_is_local:
  "(uploads (fst (handleMessage e msg pb b tag)) = [] \<or>
    (effectiveBucket msg b \<noteq> [] \<and>
     (\<exists>pkg res. uploads (fst (handleMessage e msg pb b tag)) =
        [(effectiveBucket msg b, pkg, res)]))) \<and>
   (metadata msg ''name'' \<noteq> [] \<and> metadata msg ''ecosystem'' \<noteq> [] \<and>
    Manager e (metadata msg ''ecosystem'') = Some m \<and>
    stagePackage e pb (metadata msg ''package_path'') [Tag tag] =
      (evs0, deferred, Inr (lp, opts)) \<and>
    resolvePkg m (metadata msg ''ecosystem'') (metadata msg ''name'')
      (metadata msg ''version'') lp = (evs1, Inr pkg) \<and>
    phaseExecutor e (sandbox_New (Image m) opts) m pkg
      (metadata msg ''ecosystem'', metadata msg ''name'', metadata msg ''version'') =
      (evs2, Inr (res, finalStatus, lastPhase)) \<longrightarrow>
      (uploads (fst (handleMessage e msg pb b tag)) \<noteq> []) = (effectiveBucket msg b \<noteq> [])) \<and>
   (messageLoop sub url packages b tag = Some (levs, r) \<longrightarrow>
      handled levs =
        (if pubsub_OpenSubscription sub = None \<and> (packages = [] \<or> blob_OpenBucket sub = None)
         then map (\<lambda>d. (b, uploads (fst (handleMessage (fst d) (snd d)
                     (if packages \<noteq> [] then Some packages else None) b tag))))
                (deliveries sub)
         else []))"
proof (intro conjI impI)
  show "uploads (fst (handleMessage e msg pb b tag)) = [] \<or>
    (effectiveBucket msg b \<noteq> [] \<and>
     (\<exists>pkg res. uploads (fst (handleMessage e msg pb b tag)) =
        [(effectiveBucket msg b, pkg, res)]))"
    by (rule handleMessage_uploads)
next
  assume "metadata msg ''name'' \<noteq> [] \<and> metadata msg ''ecosystem'' \<noteq> [] \<and>
    Manager e (metadata msg ''ecosystem'') = Some m \<and>
    stagePackage e pb (metadata msg ''package_path'') [Tag tag] =
      (evs0, deferred, Inr (lp, opts)) \<and>
    resolvePkg m (metadata msg ''ecosystem'') (metadata msg ''name'')
      (metadata msg ''version'') lp = (evs1, Inr pkg) \<and>
    phaseExecutor e (sandbox_New (Image m) opts) m pkg
      (metadata msg ''ecosystem'', metadata msg ''name'', metadata msg ''version'') =
      (evs2, Inr (res, finalStatus, lastPhase))"
  then have "uploads (fst (handleMessage e msg pb b tag)) =
      (if effectiveBucket msg b \<noteq> [] then [(effectiveBucket msg b, pkg, res)] else [])"
    using handleMessage_executed_uploads [of msg e m pb tag evs0 deferred lp opts evs1 pkg evs2
        res finalStatus lastPhase b]
    by blast
  then show "(uploads (fst (handleMessage e msg pb b tag)) \<noteq> []) = (effectiveBucket msg b \<noteq> [])"
    by simp
next
  assume "messageLoop sub url packages b tag = Some (levs, r)"
  then show "handled levs =
        (if pubsub_OpenSubscription sub = None \<and> (packages = [] \<or> blob_OpenBucket sub = None)
         then map (\<lambda>d. (b, uploads (fst (handleMessage (fst d) (snd d)
                     (if packages \<noteq> [] then Some packages else None) b tag))))
                (deliveries sub)
         else [])"
    by (rule messageLoop_handled)
qed

theorem override_is_local_witness:
  "effectiveBucket redirected ''results'' = ''elsewhere'' \<and>
   effectiveBucket leftPad ''results'' = ''results'' \<and>
   (\<exists>levs r. messageLoop twoMessages ''sub'' [] ''results'' ''latest'' = Some (levs, r) \<and>
      map fst (handled levs) = [''results'', ''results''] \<and>
      map (map fst \<circ> snd) (handled levs) = [[''elsewhere''], [''results'']])"
proof -
  have "messageLoop twoMessages ''sub'' [] ''results'' ''latest'' \<noteq> None"
    by (rule messageLoop_returns) (simp add: twoMessages_def)
  then obtain levs r where
    ml: "messageLoop twoMessages ''sub'' [] ''results'' ''latest'' = Some (levs, r)"
    by auto
  note inst = override_is_local [of calm redirected None "''results''" "''latest''" npm
      "[]" "[]" "[]" "[Tag ''latest'']" "[]" "(''left-pad'', ''1.0.0'', [])"
      "fst (phaseExecutor calm (sandbox_New (Image npm) [Tag ''latest'']) npm
             (''left-pad'', ''1.0.0'', []) (''npm'', ''left-pad'', ''1.0.0''))"
      "[''install'' \<mapsto> completed, ''import'' \<mapsto> completed]" StatusCompleted "''import''"
      twoMessages "''sub''" "[]" levs r]
  have eff: "effectiveBucket redirected ''results'' = ''elsewhere''"
    "effectiveBucket leftPad ''results'' = ''results''"
    by (simp_all add: effectiveBucket_def metadata_def redirected_def leftPad_def)
  have reached: "uploads (fst (handleMessage calm redirected None ''results'' ''latest'')) \<noteq> []"
    using inst [THEN conjunct2, THEN conjunct1]
    by (simp add: eff) (simp add: handler_defs example_defs)
  have h: "handled levs =
      [(''results'', uploads (fst (handleMessage calm redirected None ''results'' ''latest''))),
       (''results'', uploads (fst (handleMessage calm leftPad None ''results'' ''latest'')))]"
    using inst [THEN conjunct2, THEN conjunct2] ml by (simp add: twoMessages_def)
  have buckets: "map fst (handled levs) = [''results'', ''results'']" by (simp add: h)
  have targets: "map (map fst \<circ> snd) (handled levs) = [[''elsewhere''], [''results'']]"
    unfolding h using reached by (simp add: handler_defs example_defs)
  have "\<exists>levs r. messageLoop twoMessages ''sub'' [] ''results'' ''latest'' = Some (levs, r) \<and>
      map fst (handled levs) = [''results'', ''results''] \<and>
      map (map fst \<circ> snd) (handled levs) = [[''elsewhere''], [''results'']]"
    by (rule exI [of _ levs], rule exI [of _ r]) (simp only: ml buckets targets)
  with eff show ?thesis by simp
qed

section \<open>The retry supervisor\<close>

lemma receiveLoop_error:
  "receiveLoop ds rerr pb b tag = Some (evs, r) \<Longrightarrow> r \<noteq> None"
proof (induction ds arbitrary: evs)
  case Nil
  then show ?case by (auto split: option.splits)
next
  case (Cons d ds)
  obtain e msg where d: "d = (e, msg)" by (cases d) auto
  from Cons.prems d obtain evs' where "receiveLoop ds rerr pb b tag = Some (evs', r)"
    by (auto split: option.splits prod.splits)
  then show ?case by (rule Cons.IH)
qed

lemma messageLoop_error:
  assumes "messageLoop sub url packages b tag = Some (evs, r)"
  shows "r \<noteq> None"
proof (cases "pubsub_OpenSubscription sub")
  case (Some err)
  with assms have "r = Some err" by (simp add: messageLoop_def)
  then show ?thesis by simp
next
  case opened: None
  show ?thesis
  proof (cases "packages = []")
    case True
    with assms opened show ?thesis
      by (auto simp: messageLoop_def split: option.splits dest: receiveLoop_error)
  next
    case False
    show ?thesis
    proof (cases "blob_OpenBucket sub")
      case (Some err)
      with assms opened False have "r = Some err" by (simp add: messageLoop_def)
      then show ?thesis by simp
    next
      case None
      with assms opened False show ?thesis
        by (auto simp: messageLoop_def split: option.splits dest: receiveLoop_error)
    qed
  qed
qed

lemma loopCalls_append [simp]: "loopCalls (xs @ ys) = loopCalls xs + loopCalls ys"
  by (induction xs rule: loopCalls.induct) simp_all

lemma retryCounts_append [simp]: "retryCounts (xs @ ys) = retryCounts xs @ retryCounts ys"
  by (induction xs rule: retryCounts.induct) simp_all

lemma sleeps_append [simp]: "sleeps (xs @ ys) = sleeps xs @ sleeps ys"
  by (induction xs rule: sleeps.induct) simp_all

lemma mainLoop_exits:
  assumes "mainLoop subs cfg i rc acc = Some (evs, rc')" and "rc < maxRetries"
  shows "rc' = maxRetries \<and>
         loopCalls evs = loopCalls acc + nat (maxRetries - rc) \<and>
         retryCounts evs = retryCounts acc @ [rc + 1..maxRetries] \<and>
         sleeps evs = sleeps acc @ map retryDelay [rc + 1..maxRetries - 1] \<and>
         (\<forall>j<nat (maxRetries - rc).
            messageLoop (subs (i + j)) (OSSMALWARE_WORKER_SUBSCRIPTION cfg)
              (OSSF_MALWARE_ANALYSIS_PACKAGES cfg) (OSSF_MALWARE_ANALYSIS_RESULTS cfg)
              (OSSF_SANDBOX_IMAGE_TAG cfg) \<noteq> None)"
  using assms
proof (induction n \<equiv> "nat (maxRetries - 1 - rc)" arbitrary: i rc acc)
  case 0
  then have rc: "rc + 1 = maxRetries" by simp
  from "0.prems"(1) obtain levs x where
    ml: "messageLoop (subs i) (OSSMALWARE_WORKER_SUBSCRIPTION cfg)
           (OSSF_MALWARE_ANALYSIS_PACKAGES cfg) (OSSF_MALWARE_ANALYSIS_RESULTS cfg)
           (OSSF_SANDBOX_IMAGE_TAG cfg) = Some (levs, Some x)"
    by (subst (asm) mainLoop.simps) (auto split: option.splits dest: messageLoop_error)
  from "0.prems"(1) ml rc have
    "evs = acc @ [MessageLoop levs, MainLog LogError ''Retries exceeded''
        [(''error'', Str x), (''retryCount'', Num (rc + 1))]]" "rc' = rc + 1"
    by (subst (asm) mainLoop.simps, simp)+
  with rc ml show ?case by (simp add: maxRetries_def)
next
  case (Suc n)
  then have rc: "rc + 1 < maxRetries" by simp
  from Suc.prems(1) obtain levs x where
    ml: "messageLoop (subs i) (OSSMALWARE_WORKER_SUBSCRIPTION cfg)
           (OSSF_MALWARE_ANALYSIS_PACKAGES cfg) (OSSF_MALWARE_ANALYSIS_RESULTS cfg)
           (OSSF_SANDBOX_IMAGE_TAG cfg) = Some (levs, Some x)"
    by (subst (asm) mainLoop.simps) (auto split: option.splits dest: messageLoop_error)
  from Suc.prems(1) ml rc have rec:
    "mainLoop subs cfg (Suc i) (rc + 1)
       (acc @ [MessageLoop levs,
               MainLog LogError ''Error encountered, retrying''
                 [(''error'', Str x), (''retryCount'', Num (rc + 1)),
                  (''waitSeconds'', Num (retryDelay (rc + 1)))],
               Sleep (retryDelay (rc + 1))]) = Some (evs, rc')"
    by (subst (asm) mainLoop.simps) simp
  have n: "n = nat (maxRetries - 1 - (rc + 1))" using Suc.hyps(2) by simp
  from Suc.hyps(1) [OF n rec rc] have ih:
    "rc' = maxRetries"
    "loopCalls evs = Suc (loopCalls acc) + nat (maxRetries - (rc + 1))"
    "retryCounts evs = retryCounts acc @ (rc + 1) # [rc + 1 + 1..maxRetries]"
    "sleeps evs = sleeps acc @ retryDelay (rc + 1) # map retryDelay [rc + 1 + 1..maxRetries - 1]"
    "\<forall>j<nat (maxRetries - (rc + 1)).
        messageLoop (subs (Suc i + j)) (OSSMALWARE_WORKER_SUBSCRIPTION cfg)
          (OSSF_MALWARE_ANALYSIS_PACKAGES cfg) (OSSF_MALWARE_ANALYSIS_RESULTS cfg)
          (OSSF_SANDBOX_IMAGE_TAG cfg) \<noteq> None"
    by simp_all
  have u1: "[rc + 1..maxRetries] = (rc + 1) # [rc + 1 + 1..maxRetries]"
    using rc by (simp add: upto_rec1)
  have u2: "[rc + 1..maxRetries - 1] = (rc + 1) # [rc + 1 + 1..maxRetries - 1]"
    using rc by (simp add: upto_rec1)
  have all: "\<forall>j<nat (maxRetries - rc).
        messageLoop (subs (i + j)) (OSSMALWARE_WORKER_SUBSCRIPTION cfg)
          (OSSF_MALWARE_ANALYSIS_PACKAGES cfg) (OSSF_MALWARE_ANALYSIS_RESULTS cfg)
          (OSSF_SANDBOX_IMAGE_TAG cfg) \<noteq> None"
  proof (intro allI impI)
    fix j assume j: "j < nat (maxRetries - rc)"
    show "messageLoop (subs (i + j)) (OSSMALWARE_WORKER_SUBSCRIPTION cfg)
          (OSSF_MALWARE_ANALYSIS_PACKAGES cfg) (OSSF_MALWARE_ANALYSIS_RESULTS cfg)
          (OSSF_SANDBOX_IMAGE_TAG cfg) \<noteq> None"
    proof (cases j)
      case 0
      with ml show ?thesis by simp
    next
      case (Suc j')
      with j have "j' < nat (maxRetries - (rc + 1))" by simp
      with ih(5) Suc show ?thesis by simp
    qed
  qed
  from ih(1-4) all rc show ?case
    by (simp only: u1 u2) (simp add: nat_diff_distrib)
qed

lemma mainLoop_returns:
  assumes "\<forall>j<nat (maxRetries - rc).
            messageLoop (subs (i + j)) (OSSMALWARE_WORKER_SUBSCRIPTION cfg)
              (OSSF_MALWARE_ANALYSIS_PACKAGES cfg) (OSSF_MALWARE_ANALYSIS_RESULTS cfg)
              (OSSF_SANDBOX_IMAGE_TAG cfg) \<noteq> None"
    and "rc < maxRetries"
  shows "mainLoop subs cfg i rc acc \<noteq> None"
  using assms
proof (induction n \<equiv> "nat (maxRetries - 1 - rc)" arbitrary: i rc acc)
  case 0
  then have rc: "rc + 1 = maxRetries" by simp
  from "0.prems" have "messageLoop (subs (i + 0)) (OSSMALWARE_WORKER_SUBSCRIPTION cfg)
              (OSSF_MALWARE_ANALYSIS_PACKAGES cfg) (OSSF_MALWARE_ANALYSIS_RESULTS cfg)
              (OSSF_SANDBOX_IMAGE_TAG cfg) \<noteq> None"
    by (metis zero_less_diff zero_less_nat_eq diff_gt_0_iff_gt)
  then obtain levs x where
    ml: "messageLoop (subs i) (OSSMALWARE_WORKER_SUBSCRIPTION cfg)
           (OSSF_MALWARE_ANALYSIS_PACKAGES cfg) (OSSF_MALWARE_ANALYSIS_RESULTS cfg)
           (OSSF_SANDBOX_IMAGE_TAG cfg) = Some (levs, Some x)"
    using messageLoop_error by fastforce
  with rc show ?case by (subst mainLoop.simps) simp
next
  case (Suc n)
  then have rc: "rc + 1 < maxRetries" by simp
  from Suc.prems have "messageLoop (subs (i + 0)) (OSSMALWARE_WORKER_SUBSCRIPTION cfg)
              (OSSF_MALWARE_ANALYSIS_PACKAGES cfg) (OSSF_MALWARE_ANALYSIS_RESULTS cfg)
              (OSSF_SANDBOX_IMAGE_TAG cfg) \<noteq> None"
    by (metis zero_less_diff zero_less_nat_eq diff_gt_0_iff_gt)
  then obtain levs x where
    ml: "messageLoop (subs i) (OSSMALWARE_WORKER_SUBSCRIPTION cfg)
           (OSSF_MALWARE_ANALYSIS_PACKAGES cfg) (OSSF_MALWARE_ANALYSIS_RESULTS cfg)
           (OSSF_SANDBOX_IMAGE_TAG cfg) = Some (levs, Some x)"
    using messageLoop_error by fastforce
  have n: "n = nat (maxRetries - 1 - (rc + 1))" using Suc.hyps(2) by simp
  have rest: "\<forall>j<nat (maxRetries - (rc + 1)).
            messageLoop (subs (Suc i + j)) (OSSMALWARE_WORKER_SUBSCRIPTION cfg)
              (OSSF_MALWARE_ANALYSIS_PACKAGES cfg) (OSSF_MALWARE_ANALYSIS_RESULTS cfg)
              (OSSF_SANDBOX_IMAGE_TAG cfg) \<noteq> None"
  proof (intro allI impI)
    fix j assume "j < nat (maxRetries - (rc + 1))"
    then have "Suc j < nat (maxRetries - rc)" by simp
    with Suc.prems(1) show "messageLoop (subs (Suc i + j)) (OSSMALWARE_WORKER_SUBSCRIPTION cfg)
              (OSSF_MALWARE_ANALYSIS_PACKAGES cfg) (OSSF_MALWARE_ANALYSIS_RESULTS cfg)
              (OSSF_SANDBOX_IMAGE_TAG cfg) \<noteq> None"
      by (metis add_Suc_shift)
  qed
  from Suc.hyps(1) [OF n rest rc] ml rc show ?case
    by (subst mainLoop.simps) simp
qed

text \<open>C5. \<^verbatim>\<open>messageLoop\<close> never returns nil, so each of its returns is a failure. The
  counter starts at zero and the failures are counted 1, 2, and so on, whatever the
  messages handled in between; \<^verbatim>\<open>main\<close> leaves its loop at the tenth failure, with the
  counter at \<^verbatim>\<open>maxRetries\<close>, after ten calls of \<^verbatim>\<open>messageLoop\<close> and nine sleeps. It
  leaves the loop exactly when each of the first ten calls of \<^verbatim>\<open>messageLoop\<close>
  returns.\<close>

theorem retry_supervisor:
  "(main subs cfg \<noteq> None) =
     (\<forall>j<10. messageLoop (subs j) (OSSMALWARE_WORKER_SUBSCRIPTION cfg)
        (OSSF_MALWARE_ANALYSIS_PACKAGES cfg) (OSSF_MALWARE_ANALYSIS_RESULTS cfg)
        (OSSF_SANDBOX_IMAGE_TAG cfg) \<noteq> None) \<and>
   (main subs cfg = Some (evs, rc) \<longrightarrow>
      rc = maxRetries \<and> loopCalls evs = 10 \<and>
      retryCounts evs = [1, 2, 3, 4, 5, 6, 7, 8, 9, 10] \<and>
      sleeps evs = map retryDelay [1, 2, 3, 4, 5, 6, 7, 8, 9]) \<and>
   (messageLoop sub url packages b tag = Some (levs, r) \<longrightarrow> r \<noteq> None)"
proof (intro conjI impI)
  show "(main subs cfg \<noteq> None) =
     (\<forall>j<10. messageLoop (subs j) (OSSMALWARE_WORKER_SUBSCRIPTION cfg)
        (OSSF_MALWARE_ANALYSIS_PACKAGES cfg) (OSSF_MALWARE_ANALYSIS_RESULTS cfg)
        (OSSF_SANDBOX_IMAGE_TAG cfg) \<noteq> None)"
  proof
    assume "main subs cfg \<noteq> None"
    then obtain evs' rc' where "main subs cfg = Some (evs', rc')" by auto
    from mainLoop_exits [OF this [unfolded main_def]]
    show "\<forall>j<10. messageLoop (subs j) (OSSMALWARE_WORKER_SUBSCRIPTION cfg)
        (OSSF_MALWARE_ANALYSIS_PACKAGES cfg) (OSSF_MALWARE_ANALYSIS_RESULTS cfg)
        (OSSF_SANDBOX_IMAGE_TAG cfg) \<noteq> None"
      by (simp add: maxRetries_def)
  next
    assume "\<forall>j<10. messageLoop (subs j) (OSSMALWARE_WORKER_SUBSCRIPTION cfg)
        (OSSF_MALWARE_ANALYSIS_PACKAGES cfg) (OSSF_MALWARE_ANALYSIS_RESULTS cfg)
        (OSSF_SANDBOX_IMAGE_TAG cfg) \<noteq> None"
    then show "main subs cfg \<noteq> None"
      unfolding main_def
      by (intro mainLoop_returns) (simp_all add: maxRetries_def)
  qed
next
  assume "main subs cfg = Some (evs, rc)"
  from mainLoop_exits [OF this [unfolded main_def]]
  have *: "rc = maxRetries" "loopCalls evs = 10" "retryCounts evs = [0 + 1..maxRetries]"
    "sleeps evs = map retryDelay [0 + 1..maxRetries - 1]"
    by (simp_all add: maxRetries_def)
  show "rc = maxRetries" by (rule *)
  show "loopCalls evs = 10" by (rule *)
  show "retryCounts evs = [1, 2, 3, 4, 5, 6, 7, 8, 9, 10]"
    unfolding *(3) by (simp add: maxRetries_def upto_rec1)
  show "sleeps evs = map retryDelay [1, 2, 3, 4, 5, 6, 7, 8, 9]"
    unfolding *(4) by (simp add: maxRetries_def upto_rec1)
next
  assume "messageLoop sub url packages b tag = Some (levs, r)"
  then show "r \<noteq> None" by (rule messageLoop_error)
qed

theorem retry_supervisor_witness:
  "(\<exists>evs. main (\<lambda>i. twoMessages) worker = Some (evs, 10) \<and> loopCalls evs = 10 \<and>
      retryCounts evs = [1, 2, 3, 4, 5, 6, 7, 8, 9, 10] \<and>
      sleeps evs = [1, 2, 3, 5, 7, 11, 17, 25, 38])"
proof -
  have returns: "messageLoop twoMessages ''sub'' [] ''results'' ''latest'' \<noteq> None"
    by (rule messageLoop_returns) (simp add: twoMessages_def)
  have "main (\<lambda>i. twoMessages) worker \<noteq> None"
    using retry_supervisor [of "\<lambda>i. twoMessages" worker, THEN conjunct1] returns
    by (simp add: worker_def)
  then obtain evs rc where m: "main (\<lambda>i. twoMessages) worker = Some (evs, rc)" by auto
  from retry_supervisor [of "\<lambda>i. twoMessages" worker evs rc, THEN conjunct2, THEN conjunct1] m
  have "rc = 10" "loopCalls evs = 10" "retryCounts evs = [1, 2, 3, 4, 5, 6, 7, 8, 9, 10]"
    "sleeps evs = [1, 2, 3, 5, 7, 11, 17, 25, 38]"
    using retryDelay_values by (simp_all add: maxRetries_def)
  with m show ?thesis by blast
qed

end
